theory Spec2Isabelle
  imports Complex_Main "HOL-Library.Sublist"
begin

section \<open>Shared Python and XML vocabulary\<close>

text \<open>
  Exceptions of the two scripts are values: a function that can raise returns
  \<open>py_error + 'a\<close>, with \<open>Inl\<close> the exception. \<open>OutsideModel\<close> marks the few inputs
  on which the embedding does not follow the interpreter (named where it is used).
\<close>

datatype py_error =
    KeyError | ValueError | AttributeError | IndexError | AssertionError | TypeError
  | HTTPError | OSError | ParseError | SyntaxError | SystemExit int | OutsideModel

definition ebind :: "py_error + 'a \<Rightarrow> ('a \<Rightarrow> py_error + 'b) \<Rightarrow> py_error + 'b" where
  "ebind m f = (case m of Inl e \<Rightarrow> Inl e | Inr x \<Rightarrow> f x)"

text \<open>A list comprehension whose body can raise: the first exception wins.\<close>

fun sequence_err :: "(py_error + 'a) list \<Rightarrow> py_error + 'a list" where
  "sequence_err [] = Inr []"
| "sequence_err (m # ms) =
     (case m of Inl e \<Rightarrow> Inl e
      | Inr x \<Rightarrow> (case sequence_err ms of Inl e \<Rightarrow> Inl e | Inr xs \<Rightarrow> Inr (x # xs)))"

text \<open>
  An XML element as both parsers present it: tag name, attributes, the text before the
  first child (\<open>None\<close> when there is none) and the child elements in document order.
\<close>

datatype xml =
  Elem (tag: string) (attrs: "(string \<times> string) list") (elem_text: "string option")
       (children: "xml list")

fun descendants :: "xml \<Rightarrow> xml list" where
  "descendants (Elem t a x cs) = concat (map (\<lambda>c. c # descendants c) cs)"

text \<open>\<open>find_all(name)\<close> of BeautifulSoup and \<open>.//name\<close> of ElementTree: every
  descendant with that tag, in document order. \<open>find_first\<close> is \<open>tag.Name\<close> /
  \<open>find(name)\<close> of BeautifulSoup (first descendant or \<open>None\<close>); \<open>find_child\<close> is
  ElementTree's \<open>find(name)\<close> (first direct child or \<open>None\<close>).\<close>

definition find_all :: "string \<Rightarrow> xml \<Rightarrow> xml list" where
  "find_all nm x = filter (\<lambda>e. tag e = nm) (descendants x)"

definition find_first :: "string \<Rightarrow> xml \<Rightarrow> xml option" where
  "find_first nm x = (case find_all nm x of [] \<Rightarrow> None | e # _ \<Rightarrow> Some e)"

definition find_child :: "string \<Rightarrow> xml \<Rightarrow> xml option" where
  "find_child nm x = (case filter (\<lambda>e. tag e = nm) (children x) of [] \<Rightarrow> None | e # _ \<Rightarrow> Some e)"

text \<open>\<open>tag[key]\<close>: the attribute's value, \<open>KeyError\<close> when it is absent.\<close>

definition getitem :: "xml \<Rightarrow> string \<Rightarrow> py_error + string" where
  "getitem x k = (case map_of (attrs x) k of None \<Rightarrow> Inl KeyError | Some v \<Rightarrow> Inr v)"

text \<open>String methods. Whitespace is the ASCII whitespace of \<open>str.isspace\<close>.\<close>

definition is_space :: "char \<Rightarrow> bool" where
  "is_space c = (c \<in> set [CHR 0x09, CHR 0x0A, CHR 0x0B, CHR 0x0C, CHR 0x0D,
                           CHR 0x1C, CHR 0x1D, CHR 0x1E, CHR 0x1F, CHR 0x20])"

definition strip :: "string \<Rightarrow> string" where
  "strip s = rev (dropWhile is_space (rev (dropWhile is_space s)))"

text \<open>\<open>s.split()\<close>: the maximal runs of non-whitespace.\<close>

fun split_ws_acc :: "string \<Rightarrow> string \<Rightarrow> string list" where
  "split_ws_acc cur [] = (if cur = [] then [] else [cur])"
| "split_ws_acc cur (c # cs) =
     (if is_space c then (if cur = [] then split_ws_acc [] cs else cur # split_ws_acc [] cs)
      else split_ws_acc (cur @ [c]) cs)"

definition split_ws :: "string \<Rightarrow> string list" where
  "split_ws s = split_ws_acc [] s"

text \<open>\<open>s.split(sep)\<close> for a non-empty separator: empty pieces are kept. (Python raises
  \<open>ValueError\<close> on an empty separator; both scripts pass literals.)\<close>

function split_acc :: "string \<Rightarrow> string \<Rightarrow> string \<Rightarrow> string list" where
  "split_acc sep cur [] = [cur]"
| "split_acc sep cur (c # cs) =
     (if sep \<noteq> [] \<and> take (length sep) (c # cs) = sep
      then cur # split_acc sep [] (drop (length sep - 1) cs)
      else split_acc sep (cur @ [c]) cs)"
  by pat_completeness auto
termination
  by (relation "measure (\<lambda>(sep, cur, s). length s)") auto

definition split :: "string \<Rightarrow> string \<Rightarrow> string list" where
  "split sep s = split_acc sep [] s"

text \<open>
  The builtins \<open>int(str)\<close> and \<open>float(str)\<close> are parameters of the model: \<open>None\<close> is
  their \<open>ValueError\<close>. Floats are read as reals (finite values, exact arithmetic).
\<close>

record builtins =
  py_int :: "string \<Rightarrow> int option"
  py_float :: "string \<Rightarrow> real option"

definition int_of :: "builtins \<Rightarrow> string \<Rightarrow> py_error + int" where
  "int_of B s = (case py_int B s of None \<Rightarrow> Inl ValueError | Some i \<Rightarrow> Inr i)"

definition float_of :: "builtins \<Rightarrow> string \<Rightarrow> py_error + real" where
  "float_of B s = (case py_float B s of None \<Rightarrow> Inl ValueError | Some r \<Rightarrow> Inr r)"

text \<open>\<open>os.path.join(a, b)\<close> and \<open>os.path.basename(p)\<close> on POSIX.\<close>

definition path_join :: "string \<Rightarrow> string \<Rightarrow> string" where
  "path_join a b =
     (if b \<noteq> [] \<and> hd b = CHR ''/'' then b
      else if a = [] \<or> last a = CHR ''/'' then a @ b
      else a @ ''/'' @ b)"

definition basename :: "string \<Rightarrow> string" where
  "basename p = rev (takeWhile (\<lambda>c. c \<noteq> CHR ''/'') (rev p))"


section \<open>convert\_prima\_to\_coco\_rc.py\<close>

type_synonym point = "real \<times> real"

text \<open>A Python dict with integer keys, in insertion order.\<close>

type_synonym 'a dict = "(int \<times> 'a) list"

subsection \<open>cvt\_coords\_to\_array\<close>

text \<open>
  One entry \<open>"x,y"\<close> of a \<open>points\<close> attribute: \<open>tuple(map(float, p.strip().split(',')))\<close>.
  The model covers two-dimensional points: an entry whose pieces all parse but are not
  exactly two is \<open>OutsideModel\<close> (numpy would build an array of another shape).
\<close>

definition parse_point :: "builtins \<Rightarrow> string \<Rightarrow> py_error + point" where
  "parse_point B p =
     (case sequence_err (map (float_of B) (split '','' (strip p))) of
        Inl e \<Rightarrow> Inl e
      | Inr [x, y] \<Rightarrow> Inr (x, y)
      | Inr _ \<Rightarrow> Inl OutsideModel)"

text \<open>\<open>(float(pt['x']), float(pt['y']))\<close> for one \<open>Point\<close> element.\<close>

definition point_of_tag :: "builtins \<Rightarrow> xml \<Rightarrow> py_error + point" where
  "point_of_tag B pt =
     ebind (getitem pt ''x'') (\<lambda>sx. ebind (float_of B sx) (\<lambda>x.
     ebind (getitem pt ''y'') (\<lambda>sy. ebind (float_of B sy) (\<lambda>y. Inr (x, y)))))"

definition cvt_coords_to_array :: "builtins \<Rightarrow> xml \<Rightarrow> py_error + point list" where
  "cvt_coords_to_array B obj =
     (case map_of (attrs obj) ''points'' of
        Some points_str \<Rightarrow> sequence_err (map (parse_point B) (split_ws (strip points_str)))
      | None \<Rightarrow>
          (if find_all ''Point'' obj \<noteq> []
           then sequence_err (map (point_of_tag B) (find_all ''Point'' obj))
           else Inr []))"

subsection \<open>cal\_ployarea\<close>

definition dot :: "real list \<Rightarrow> real list \<Rightarrow> real" where
  "dot xs ys = sum_list (map2 (*) xs ys)"

text \<open>\<open>np.roll(v, 1)\<close>: the last entry moves to the front.\<close>

definition roll1 :: "'a list \<Rightarrow> 'a list" where
  "roll1 v = (if v = [] then [] else last v # butlast v)"

definition cal_ployarea :: "point list \<Rightarrow> real" where
  "cal_ployarea points =
     (let x = map fst points; y = map snd points
      in 0.5 * \<bar>dot x (roll1 y) - dot y (roll1 x)\<bar>)"


subsection \<open>Categories\<close>

record category =
  supercategory :: string
  cat_id :: int
  cat_name :: string

text \<open>\<open>find_categories\<close>: \<open>[val["id"] for val in categories if val['name'] == name][0]\<close>.\<close>

definition find_categories :: "category list \<Rightarrow> string \<Rightarrow> py_error + int" where
  "find_categories cats nm =
     (case map cat_id (filter (\<lambda>val. cat_name val = nm) cats) of
        [] \<Rightarrow> Inl IndexError | i # _ \<Rightarrow> Inr i)"

text \<open>\<open>_create_category(schema)\<close>: for a schema other than 0 the function returns
  \<open>None\<close>, and unpacking it at module level raises \<open>TypeError\<close>.\<close>

definition create_category :: "int \<Rightarrow> py_error + (category list \<times> (string \<times> int) list)" where
  "create_category schema =
     (if schema = 0 then
        (let categories =
               [\<lparr>supercategory = ''layout'', cat_id = 1, cat_name = ''TableRow''\<rparr>,
                \<lparr>supercategory = ''layout'', cat_id = 2, cat_name = ''TableColumn''\<rparr>]
         in ebind (find_categories categories ''TableRow'') (\<lambda>r.
            ebind (find_categories categories ''TableColumn'') (\<lambda>c.
            Inr (categories, [(''TableRow'', r), (''TableColumn'', c)]))))
      else Inl TypeError)"

text \<open>The module globals \<open>_categories\<close> and \<open>_categories_conversion\<close>.\<close>

definition g_categories :: "category list" where
  "g_categories = (case create_category 0 of Inr (cs, conv) \<Rightarrow> cs | Inl e \<Rightarrow> [])"

definition g_categories_conversion :: "(string \<times> int) list" where
  "g_categories_conversion = (case create_category 0 of Inr (cs, conv) \<Rightarrow> conv | Inl e \<Rightarrow> [])"

subsection \<open>group\_cells\_by\_row\_and\_column\<close>

text \<open>\<open>if k not in d: d[k] = []\<close> followed by \<open>d[k].append(v)\<close>.\<close>

fun dict_append :: "int \<Rightarrow> 'a \<Rightarrow> 'a list dict \<Rightarrow> 'a list dict" where
  "dict_append k v [] = [(k, [v])]"
| "dict_append k v ((k', vs) # d) =
     (if k = k' then (k', vs @ [v]) # d else (k', vs) # dict_append k v d)"

text \<open>\<open>int(cell[key])\<close>.\<close>

definition cell_index :: "builtins \<Rightarrow> xml \<Rightarrow> string \<Rightarrow> py_error + int" where
  "cell_index B cell k = ebind (getitem cell k) (int_of B)"

fun group_loop ::
  "builtins \<Rightarrow> xml list \<Rightarrow> xml list dict \<times> xml list dict
     \<Rightarrow> py_error + (xml list dict \<times> xml list dict)" where
  "group_loop B [] (rows, columns) = Inr (rows, columns)"
| "group_loop B (cell # cells) (rows, columns) =
     (case cell_index B cell ''row'' of
        Inl e \<Rightarrow> Inl e
      | Inr row_idx \<Rightarrow>
          (case cell_index B cell ''col'' of
             Inl e \<Rightarrow> Inl e
           | Inr col_idx \<Rightarrow>
               group_loop B cells
                 (dict_append row_idx cell rows, dict_append col_idx cell columns)))"

definition group_cells_by_row_and_column ::
  "builtins \<Rightarrow> xml list \<Rightarrow> py_error + (xml list dict \<times> xml list dict)" where
  "group_cells_by_row_and_column B cells = group_loop B cells ([], [])"

subsection \<open>calculate\_group\_boundaries\<close>

text \<open>
  The geometry library (shapely) is a parameter: a type \<open>'g\<close> of geometries with the
  operations the script calls. \<open>exterior_coords\<close> is \<open>g.exterior.coords\<close>, \<open>geoms\<close> the
  parts of a multi-part geometry, \<open>geom_area\<close> the property \<open>area\<close>.
\<close>

record 'g shapely =
  Polygon :: "point list \<Rightarrow> 'g"
  is_valid :: "'g \<Rightarrow> bool"
  make_valid :: "'g \<Rightarrow> 'g"
  unary_union :: "'g list \<Rightarrow> 'g"
  geom_type :: "'g \<Rightarrow> string"
  exterior_coords :: "'g \<Rightarrow> point list"
  geoms :: "'g \<Rightarrow> 'g list"
  geom_area :: "'g \<Rightarrow> real"

text \<open>The polygon appended for one cell with at least three points.\<close>

definition cell_polygon :: "'g shapely \<Rightarrow> point list \<Rightarrow> 'g" where
  "cell_polygon S coords =
     (let polygon = Polygon S coords
      in if \<not> is_valid S polygon then make_valid S polygon else polygon)"

text \<open>The inner loop: \<open>cell.Coords\<close> is \<open>None\<close> for a cell without a \<open>Coords\<close>
  descendant, and \<open>None.has_attr\<close> raises \<open>AttributeError\<close>.\<close>

fun cell_polygons :: "builtins \<Rightarrow> 'g shapely \<Rightarrow> xml list \<Rightarrow> py_error + 'g list" where
  "cell_polygons B S [] = Inr []"
| "cell_polygons B S (cell # cell_list) =
     (case find_first ''Coords'' cell of
        None \<Rightarrow> Inl AttributeError
      | Some c \<Rightarrow>
          (case cvt_coords_to_array B c of
             Inl e \<Rightarrow> Inl e
           | Inr coords \<Rightarrow>
               (case cell_polygons B S cell_list of
                  Inl e \<Rightarrow> Inl e
                | Inr polygons \<Rightarrow>
                    (if length coords \<ge> 3 then Inr (cell_polygon S coords # polygons)
                     else Inr polygons))))"

text \<open>\<open>max(xs, key=f)\<close> on a non-empty list \<open>x # xs\<close>: the first maximal element.\<close>

fun max_by :: "('a \<Rightarrow> real) \<Rightarrow> 'a \<Rightarrow> 'a list \<Rightarrow> 'a" where
  "max_by f best [] = best"
| "max_by f best (x # xs) = max_by f (if f x > f best then x else best) xs"

text \<open>What one group adds to \<open>boundaries\<close>: nothing (\<open>None\<close>) or one entry.\<close>

definition group_boundary ::
  "'g shapely \<Rightarrow> 'g list \<Rightarrow> py_error + point list option" where
  "group_boundary S polygons =
     (if polygons = [] then Inr None
      else let union_polygon = unary_union S polygons in
        if geom_type S union_polygon = ''Polygon''
        then Inr (Some (exterior_coords S union_polygon))
        else if geom_type S union_polygon = ''MultiPolygon''
        then (case geoms S union_polygon of
                [] \<Rightarrow> Inl ValueError
              | g # gs \<Rightarrow> Inr (Some (exterior_coords S (max_by (geom_area S) g gs))))
        else Inr None)"

fun calculate_group_boundaries ::
  "builtins \<Rightarrow> 'g shapely \<Rightarrow> xml list dict \<Rightarrow> py_error + (int \<times> point list) list" where
  "calculate_group_boundaries B S [] = Inr []"
| "calculate_group_boundaries B S ((group_idx, cell_list) # grp) =
     (case cell_polygons B S cell_list of
        Inl e \<Rightarrow> Inl e
      | Inr polygons \<Rightarrow>
          (case group_boundary S polygons of
             Inl e \<Rightarrow> Inl e
           | Inr b \<Rightarrow>
               (case calculate_group_boundaries B S grp of
                  Inl e \<Rightarrow> Inl e
                | Inr boundaries \<Rightarrow>
                    (case b of
                       None \<Rightarrow> Inr boundaries
                     | Some boundary_pts \<Rightarrow> Inr ((group_idx, boundary_pts) # boundaries)))))"

subsection \<open>Templates\<close>

record image_info =
  file_name :: string
  height :: int
  width :: int
  img_id :: nat

record annotation =
  segmentation :: "real list list"
  area :: real
  iscrowd :: int
  image_id :: nat
  bbox :: "real list"
  category_id :: int
  ann_id :: nat

text \<open>The files the converter works on: which paths exist, what \<open>imagesize.get\<close>
  returns, what \<open>_load_soup\<close> parses (the document node of the annotation file), and
  which paths \<open>open(path, 'w')\<close> can write.\<close>

record conv_env =
  path_exists :: "string \<Rightarrow> bool"
  imagesize_get :: "string \<Rightarrow> py_error + (int \<times> int)"
  load_soup :: "string \<Rightarrow> py_error + xml"
  can_write :: "string \<Rightarrow> bool"

definition image_template :: "conv_env \<Rightarrow> nat \<Rightarrow> string \<Rightarrow> py_error + image_info" where
  "image_template E idx path =
     ebind (imagesize_get E path) (\<lambda>(w, h).
       Inr \<lparr>file_name = basename path, height = h, width = w, img_id = idx\<rparr>)"

text \<open>\<open>pts.flatten().tolist()\<close>.\<close>

definition flatten :: "point list \<Rightarrow> real list" where
  "flatten pts = concat (map (\<lambda>(x, y). [x, y]) pts)"

text \<open>\<open>_anno_template\<close>. On an empty array \<open>pts[:, 0]\<close> raises \<open>IndexError\<close>; a tag
  missing from the conversion table raises \<open>KeyError\<close>.\<close>

definition anno_template ::
  "nat \<Rightarrow> nat \<Rightarrow> point list \<Rightarrow> string \<Rightarrow> py_error + annotation" where
  "anno_template anno_id idx pts obj_tag =
     (if pts = [] then Inl IndexError
      else
        let x_1 = Min (set (map fst pts)); x_2 = Max (set (map fst pts));
            y_1 = Min (set (map snd pts)); y_2 = Max (set (map snd pts));
            h = y_2 - y_1;
            w = x_2 - x_1
        in (case map_of g_categories_conversion obj_tag of
              None \<Rightarrow> Inl KeyError
            | Some c \<Rightarrow>
                Inr \<lparr>segmentation = [flatten pts], area = cal_ployarea pts, iscrowd = 0,
                     image_id = idx, bbox = [x_1, y_1, w, h], category_id = c,
                     ann_id = anno_id\<rparr>))"

subsection \<open>PRIMADataset\<close>

record dataset =
  ds_base_path :: string
  ds_anno_path :: string
  ds_image_path :: string
  ids :: "string list"

definition load_annotation :: "conv_env \<Rightarrow> dataset \<Rightarrow> nat \<Rightarrow> py_error + xml" where
  "load_annotation E D idx =
     (if idx < length (ids D) then
        (let iid = ids D ! idx;
             anno_path = path_join (ds_anno_path D) (''pc-'' @ iid @ ''.xml'')
         in if \<not> path_exists E anno_path then
              (let anno_path = path_join (ds_anno_path D) (iid @ ''.xml'')
               in if path_exists E anno_path then load_soup E anno_path
                  else Inl AssertionError)
            else load_soup E anno_path)
      else Inl IndexError)"

text \<open>The loop over one list of boundaries; the state is \<open>all_anno_infos\<close> and
  \<open>anno_id\<close>.\<close>

fun emit_boundaries ::
  "nat \<Rightarrow> string \<Rightarrow> (int \<times> point list) list \<Rightarrow> annotation list \<times> nat
     \<Rightarrow> py_error + (annotation list \<times> nat)" where
  "emit_boundaries idx obj_tag [] (all_anno_infos, anno_id) = Inr (all_anno_infos, anno_id)"
| "emit_boundaries idx obj_tag ((group_idx, pts) # bs) (all_anno_infos, anno_id) =
     (if length pts \<ge> 3 then
        (case anno_template anno_id idx pts obj_tag of
           Inl e \<Rightarrow> Inl e
         | Inr anno_info \<Rightarrow>
             emit_boundaries idx obj_tag bs (all_anno_infos @ [anno_info], anno_id + 1))
      else emit_boundaries idx obj_tag bs (all_anno_infos, anno_id))"

text \<open>The body of \<open>for item in anno.find_all('TableRegion')\<close>.\<close>

definition convert_region ::
  "builtins \<Rightarrow> 'g shapely \<Rightarrow> nat \<Rightarrow> xml \<Rightarrow> annotation list \<times> nat
     \<Rightarrow> py_error + (annotation list \<times> nat)" where
  "convert_region B S idx item st =
     ebind (group_cells_by_row_and_column B (find_all ''TableCell'' item)) (\<lambda>(rows, columns).
     ebind (calculate_group_boundaries B S rows) (\<lambda>row_boundaries.
     ebind (emit_boundaries idx ''TableRow'' row_boundaries st) (\<lambda>st'.
     ebind (calculate_group_boundaries B S columns) (\<lambda>column_boundaries.
     emit_boundaries idx ''TableColumn'' column_boundaries st'))))"

fun convert_regions ::
  "builtins \<Rightarrow> 'g shapely \<Rightarrow> nat \<Rightarrow> xml list \<Rightarrow> annotation list \<times> nat
     \<Rightarrow> py_error + (annotation list \<times> nat)" where
  "convert_regions B S idx [] st = Inr st"
| "convert_regions B S idx (item # items) st =
     (case convert_region B S idx item st of
        Inl e \<Rightarrow> Inl e
      | Inr st' \<Rightarrow> convert_regions B S idx items st')"

text \<open>The loop over \<open>enumerate(self._ids)\<close>; the state is \<open>all_image_infos\<close>,
  \<open>all_anno_infos\<close> and \<open>anno_id\<close>.\<close>

fun convert_loop ::
  "builtins \<Rightarrow> 'g shapely \<Rightarrow> conv_env \<Rightarrow> dataset \<Rightarrow> (nat \<times> string) list
     \<Rightarrow> image_info list \<times> annotation list \<times> nat
     \<Rightarrow> py_error + (image_info list \<times> annotation list \<times> nat)" where
  "convert_loop B S E D [] st = Inr st"
| "convert_loop B S E D ((idx, iid) # rest) (all_image_infos, all_anno_infos, anno_id) =
     (let image_path = path_join (ds_image_path D) (iid @ ''.jpg'')
      in if \<not> path_exists E image_path
         then convert_loop B S E D rest (all_image_infos, all_anno_infos, anno_id)
         else
           (case image_template E idx image_path of
              Inl e \<Rightarrow> Inl e
            | Inr image_info \<Rightarrow>
                (case load_annotation E D idx of
                   Inl e \<Rightarrow> Inl e
                 | Inr anno \<Rightarrow>
                     (case convert_regions B S idx (find_all ''TableRegion'' anno)
                             (all_anno_infos, anno_id) of
                        Inl e \<Rightarrow> Inl e
                      | Inr (annos, next_id) \<Rightarrow>
                          convert_loop B S E D rest
                            (all_image_infos @ [image_info], annos, next_id)))))"

record dataset_info =
  description :: string
  version :: string
  year :: int
  contributor :: string
  date_created :: string

definition g_info :: dataset_info where
  "g_info = \<lparr>description = ''Dutch East India Company table recognition dataset'',
             version = ''1.0'', year = 2025, contributor = ''Gerhard de Kok'',
             date_created = ''2025/01/06''\<rparr>"

record coco =
  info :: dataset_info
  licenses :: "string list"
  images :: "image_info list"
  annotations :: "annotation list"
  categories :: "category list"

text \<open>\<open>convert_to_COCO\<close> returns \<open>final_annotation\<close>; the second component is what
  \<open>json.dump\<close> writes, and where. Opening the file is the last thing that can fail.\<close>

definition convert_to_COCO ::
  "builtins \<Rightarrow> 'g shapely \<Rightarrow> conv_env \<Rightarrow> dataset \<Rightarrow> string
     \<Rightarrow> py_error + (coco \<times> (string \<times> coco))" where
  "convert_to_COCO B S E D save_path =
     ebind (convert_loop B S E D (enumerate 0 (ids D)) ([], [], 0))
       (\<lambda>(all_image_infos, all_anno_infos, anno_id).
          let final_annotation =
                \<lparr>info = g_info, licenses = [], images = all_image_infos,
                 annotations = all_anno_infos, categories = g_categories\<rparr>
          in if can_write E save_path then Inr (final_annotation, (save_path, final_annotation))
             else Inl OSError)"

subsection \<open>Instances for the examples\<close>

text \<open>\<open>int\<close> and \<open>float\<close> on plain decimal integer literals with an optional minus sign
  and surrounding whitespace; every other string is rejected. The examples use only such
  strings, on which the instance agrees with Python.\<close>

definition digit_table :: "(char \<times> int) list" where
  "digit_table = [(CHR ''0'', 0), (CHR ''1'', 1), (CHR ''2'', 2), (CHR ''3'', 3), (CHR ''4'', 4),
                  (CHR ''5'', 5), (CHR ''6'', 6), (CHR ''7'', 7), (CHR ''8'', 8), (CHR ''9'', 9)]"

fun dec_digits :: "int \<Rightarrow> string \<Rightarrow> int option" where
  "dec_digits acc [] = Some acc"
| "dec_digits acc (c # cs) =
     (case map_of digit_table c of None \<Rightarrow> None | Some d \<Rightarrow> dec_digits (10 * acc + d) cs)"

definition decimal_int :: "string \<Rightarrow> int option" where
  "decimal_int s =
     (case strip s of
        [] \<Rightarrow> None
      | c # cs \<Rightarrow>
          (if c = CHR ''-'' then (if cs = [] then None else map_option uminus (dec_digits 0 cs))
           else dec_digits 0 (c # cs)))"

definition decimal_builtins :: builtins where
  "decimal_builtins =
     \<lparr>py_int = decimal_int, py_float = (\<lambda>s. map_option real_of_int (decimal_int s))\<rparr>"

subsection \<open>The records of a run, without the counter\<close>

text \<open>
  The emission order written as nested lists, against which the loops of
  \<open>convert_to_COCO\<close> are compared. \<open>boundary_records\<close> are the records of one list of
  boundaries (every boundary with at least three points, in order), \<open>region_records\<close>
  those of one table region (row records, then column records), \<open>regions_records\<close>
  those of the regions of one file in document order, \<open>file_records\<close> the image record
  and the annotation records of one file (\<open>None\<close> when its image is missing).
  All carry \<open>ann_id = 0\<close>; \<open>renumber n\<close> numbers a list consecutively from \<open>n\<close>.
\<close>

fun renumber :: "nat \<Rightarrow> annotation list \<Rightarrow> annotation list" where
  "renumber n [] = []"
| "renumber n (a # as) = a\<lparr>ann_id := n\<rparr> # renumber (Suc n) as"

definition boundary_records ::
  "nat \<Rightarrow> string \<Rightarrow> (int \<times> point list) list \<Rightarrow> py_error + annotation list" where
  "boundary_records idx obj_tag bs =
     sequence_err (map (\<lambda>(g, pts). anno_template 0 idx pts obj_tag)
                       (filter (\<lambda>(g, pts). length pts \<ge> 3) bs))"

definition region_records ::
  "builtins \<Rightarrow> 'g shapely \<Rightarrow> nat \<Rightarrow> xml \<Rightarrow> py_error + annotation list" where
  "region_records B S idx item =
     ebind (group_cells_by_row_and_column B (find_all ''TableCell'' item)) (\<lambda>(rows, columns).
     ebind (calculate_group_boundaries B S rows) (\<lambda>row_boundaries.
     ebind (boundary_records idx ''TableRow'' row_boundaries) (\<lambda>row_annos.
     ebind (calculate_group_boundaries B S columns) (\<lambda>column_boundaries.
     ebind (boundary_records idx ''TableColumn'' column_boundaries) (\<lambda>column_annos.
     Inr (row_annos @ column_annos))))))"

definition regions_records ::
  "builtins \<Rightarrow> 'g shapely \<Rightarrow> nat \<Rightarrow> xml list \<Rightarrow> py_error + annotation list" where
  "regions_records B S idx items =
     ebind (sequence_err (map (region_records B S idx) items)) (\<lambda>rs. Inr (concat rs))"

definition file_records ::
  "builtins \<Rightarrow> 'g shapely \<Rightarrow> conv_env \<Rightarrow> dataset \<Rightarrow> nat \<times> string
     \<Rightarrow> py_error + (image_info \<times> annotation list) option" where
  "file_records B S E D f =
     (let image_path = path_join (ds_image_path D) (snd f @ ''.jpg'')
      in if \<not> path_exists E image_path then Inr None
         else ebind (image_template E (fst f) image_path) (\<lambda>image_info.
              ebind (load_annotation E D (fst f)) (\<lambda>anno.
              ebind (regions_records B S (fst f) (find_all ''TableRegion'' anno)) (\<lambda>new.
              Inr (Some (image_info, new))))))"

definition images_of :: "(image_info \<times> annotation list) option list \<Rightarrow> image_info list" where
  "images_of rs = concat (map (\<lambda>r. case r of None \<Rightarrow> [] | Some (im, new) \<Rightarrow> [im]) rs)"

definition annos_of :: "(image_info \<times> annotation list) option list \<Rightarrow> annotation list" where
  "annos_of rs = concat (map (\<lambda>r. case r of None \<Rightarrow> [] | Some (im, new) \<Rightarrow> new) rs)"

text \<open>A record built by \<open>_anno_template\<close> for image \<open>idx\<close> from a boundary with at
  least three points, as a row or a column.\<close>

definition origin :: "annotation \<Rightarrow> nat \<Rightarrow> bool" where
  "origin a idx = (\<exists>pts obj_tag. (obj_tag = ''TableRow'' \<or> obj_tag = ''TableColumn'')
      \<and> 3 \<le> length pts \<and> anno_template 0 idx pts obj_tag = Inr a)"

text \<open>The annotation file \<open>load_annotation\<close> reads for the file of index \<open>idx\<close>, and the
  records of that file in an output.\<close>

definition anno_file :: "conv_env \<Rightarrow> dataset \<Rightarrow> nat \<Rightarrow> string" where
  "anno_file E D idx =
     (if path_exists E (path_join (ds_anno_path D) (''pc-'' @ ids D ! idx @ ''.xml''))
      then path_join (ds_anno_path D) (''pc-'' @ ids D ! idx @ ''.xml'')
      else path_join (ds_anno_path D) (ids D ! idx @ ''.xml''))"

definition file_annos :: "coco \<Rightarrow> nat \<Rightarrow> annotation list" where
  "file_annos out idx = filter (\<lambda>a. image_id a = idx) (annotations out)"

definition file_images :: "coco \<Rightarrow> nat \<Rightarrow> image_info list" where
  "file_images out idx = filter (\<lambda>im. img_id im = idx) (images out)"

definition annos_at :: "(image_info \<times> annotation list) option list \<Rightarrow> nat \<Rightarrow> annotation list" where
  "annos_at rs idx = (if idx < length rs then annos_of [rs ! idx] else [])"

definition images_at :: "(image_info \<times> annotation list) option list \<Rightarrow> nat \<Rightarrow> image_info list" where
  "images_at rs idx = (if idx < length rs then images_of [rs ! idx] else [])"

subsection \<open>Which groups yield a record\<close>

text \<open>The points of a cell (none when its coordinates cannot be read), and their
  number.\<close>

definition cell_coords :: "builtins \<Rightarrow> xml \<Rightarrow> point list" where
  "cell_coords B cell =
     (case find_first ''Coords'' cell of
        None \<Rightarrow> []
      | Some c \<Rightarrow> (case cvt_coords_to_array B c of Inl e \<Rightarrow> [] | Inr coords \<Rightarrow> coords))"

definition n_points :: "builtins \<Rightarrow> xml \<Rightarrow> nat" where
  "n_points B cell = length (cell_coords B cell)"

text \<open>A group that contains zero points, in the words of the specification.\<close>

definition zero_point_group :: "builtins \<Rightarrow> int \<times> xml list \<Rightarrow> bool" where
  "zero_point_group B g = (sum_list (map (n_points B) (snd g)) = 0)"

text \<open>The polygons of a group: those of its cells with at least three points.\<close>

definition group_polygons :: "builtins \<Rightarrow> 'g shapely \<Rightarrow> xml list \<Rightarrow> 'g list" where
  "group_polygons B S cell_list =
     (case cell_polygons B S cell_list of Inl e \<Rightarrow> [] | Inr polygons \<Rightarrow> polygons)"

text \<open>The outline the script takes from a union: its exterior ring when it is a
  polygon, the exterior ring of its first part of largest area when it is a
  multi-polygon.\<close>

definition union_outline :: "'g shapely \<Rightarrow> 'g \<Rightarrow> point list" where
  "union_outline S u =
     (if geom_type S u = ''Polygon'' then exterior_coords S u
      else (case geoms S u of [] \<Rightarrow> [] | g # gs \<Rightarrow> exterior_coords S (max_by (geom_area S) g gs)))"

definition group_outline :: "builtins \<Rightarrow> 'g shapely \<Rightarrow> int \<times> xml list \<Rightarrow> point list" where
  "group_outline B S g = union_outline S (unary_union S (group_polygons B S (snd g)))"

text \<open>A group that yields no record: no cell of it has three points, or the union of
  its polygons is neither a polygon nor a multi-polygon, or the outline has fewer than
  three points.\<close>

definition skipped_group :: "builtins \<Rightarrow> 'g shapely \<Rightarrow> int \<times> xml list \<Rightarrow> bool" where
  "skipped_group B S g =
     (list_all (\<lambda>cell. n_points B cell < 3) (snd g)
      \<or> (geom_type S (unary_union S (group_polygons B S (snd g))) \<noteq> ''Polygon''
           \<and> geom_type S (unary_union S (group_polygons B S (snd g))) \<noteq> ''MultiPolygon'')
      \<or> length (group_outline B S g) < 3)"

text \<open>The exterior boundary of a union, in the words of the specification: the exterior
  ring of a polygon, the exterior rings of all parts of a multi-polygon.\<close>

definition union_exterior :: "'g shapely \<Rightarrow> 'g \<Rightarrow> point list list" where
  "union_exterior S u =
     (if geom_type S u = ''MultiPolygon'' then map (exterior_coords S) (geoms S u)
      else [exterior_coords S u])"

text \<open>The points of a record's segmentation: the flat list \<open>[x\<^sub>0, y\<^sub>0, x\<^sub>1, y\<^sub>1, \<dots>]\<close> read back
  as pairs.\<close>

fun unflatten :: "real list \<Rightarrow> point list" where
  "unflatten (x # y # r) = (x, y) # unflatten r"
| "unflatten r = []"


subsection \<open>Two sentences of the specification, as written\<close>

text \<open>
  ``Output record count equals input group count, minus zero-point-count groups'', for
  one table region converted from an empty list of records.
\<close>

definition count_as_specified :: "builtins \<Rightarrow> 'g shapely \<Rightarrow> nat \<Rightarrow> xml \<Rightarrow> bool" where
  "count_as_specified B S idx item =
     (case group_cells_by_row_and_column B (find_all ''TableCell'' item) of
        Inl e \<Rightarrow> True
      | Inr (rows, columns) \<Rightarrow>
          (case convert_region B S idx item ([], 0) of
             Inl e \<Rightarrow> True
           | Inr (annos, n) \<Rightarrow>
               length annos + length (filter (zero_point_group B) (rows @ columns))
                 = length rows + length columns))"

text \<open>
  ``Compute geometric union of each group's polygon set, take exterior boundary'': the
  segmentation of the record of every group that yields one is the exterior boundary of
  the union of the group's polygons.
\<close>

definition outline_as_specified :: "builtins \<Rightarrow> 'g shapely \<Rightarrow> nat \<Rightarrow> xml \<Rightarrow> bool" where
  "outline_as_specified B S idx item =
     (case group_cells_by_row_and_column B (find_all ''TableCell'' item) of
        Inl e \<Rightarrow> True
      | Inr (rows, columns) \<Rightarrow>
          (case convert_region B S idx item ([], 0) of
             Inl e \<Rightarrow> True
           | Inr (annos, n) \<Rightarrow>
               map segmentation annos =
                 map (\<lambda>g. map flatten
                            (union_exterior S (unary_union S (group_polygons B S (snd g)))))
                     (filter (\<lambda>g. \<not> skipped_group B S g) (rows @ columns))))"

subsection \<open>Example data\<close>

text \<open>
  A geometry library for the examples: a polygon is its closed exterior ring, and the
  union of polygons is the multi-polygon of them. This is what the union is when the
  polygons are simple and pairwise disjoint, which is all the examples use.
\<close>

datatype sgeom = SPolygon "point list" | SMulti "sgeom list"

definition close_ring :: "point list \<Rightarrow> point list" where
  "close_ring cs = (if cs = [] \<or> hd cs = last cs then cs else cs @ [hd cs])"

definition ring_of :: "sgeom \<Rightarrow> point list" where
  "ring_of g = (case g of SPolygon r \<Rightarrow> r | SMulti gs \<Rightarrow> [])"

definition disjoint_lib :: "sgeom shapely" where
  "disjoint_lib =
     \<lparr>Polygon = (\<lambda>cs. SPolygon (close_ring cs)),
      is_valid = (\<lambda>g. True),
      make_valid = (\<lambda>g. g),
      unary_union = (\<lambda>gs. case gs of [g] \<Rightarrow> g | _ \<Rightarrow> SMulti gs),
      geom_type = (\<lambda>g. case g of SPolygon r \<Rightarrow> ''Polygon'' | SMulti gs \<Rightarrow> ''MultiPolygon''),
      exterior_coords = ring_of,
      geoms = (\<lambda>g. case g of SPolygon r \<Rightarrow> [] | SMulti gs \<Rightarrow> gs),
      geom_area = (\<lambda>g. cal_ployarea (ring_of g))\<rparr>"

text \<open>A table region with three cells: two disjoint squares in row 0 (the second the
  larger), and a cell with only two points in row 1.\<close>

definition mk_cell :: "string \<Rightarrow> string \<Rightarrow> string \<Rightarrow> xml" where
  "mk_cell r c pts =
     Elem ''TableCell'' [(''row'', r), (''col'', c)] None
       [Elem ''Coords'' [(''points'', pts)] None []]"

definition cell_a :: xml where "cell_a = mk_cell ''0'' ''0'' ''0,0 2,0 2,2 0,2''"

definition cell_b :: xml where "cell_b = mk_cell ''0'' ''1'' ''5,0 8,0 8,3 5,3''"

definition cell_c :: xml where "cell_c = mk_cell ''1'' ''0'' ''0,5 2,5''"

definition region_abc :: xml where
  "region_abc = Elem ''TableRegion'' [] None [cell_a, cell_b, cell_c]"

definition region_c :: xml where
  "region_c = Elem ''TableRegion'' [] None [cell_c]"

definition region_a :: xml where
  "region_a = Elem ''TableRegion'' [] None [cell_a]"

definition page_of :: "xml list \<Rightarrow> xml" where
  "page_of regions = Elem ''[document]'' [] None [Elem ''PcGts'' [] None [Elem ''Page'' [] None regions]]"

text \<open>A dataset of two pages. The annotation file of the first page
  (\<open>data/XML/p1.xml\<close>) holds \<open>doc1\<close>, that of the second (\<open>data/XML/pc-p2.xml\<close>) holds
  \<open>doc2\<close>.\<close>

definition example_dataset :: dataset where
  "example_dataset =
     \<lparr>ds_base_path = ''data'', ds_anno_path = ''data/XML'', ds_image_path = ''data/Images'',
      ids = [''p1'', ''p2'']\<rparr>"

definition example_env :: "xml \<Rightarrow> xml \<Rightarrow> conv_env" where
  "example_env doc1 doc2 =
     \<lparr>path_exists = (\<lambda>p. p \<in> set [''data/Images/p1.jpg'', ''data/Images/p2.jpg'',
                                     ''data/XML/p1.xml'', ''data/XML/pc-p2.xml'']),
      imagesize_get = (\<lambda>p. Inr (100, 200)),
      load_soup = (\<lambda>p. if p = ''data/XML/p1.xml'' then Inr doc1
                        else if p = ''data/XML/pc-p2.xml'' then Inr doc2
                        else Inl OSError),
      can_write = (\<lambda>p. True)\<rparr>"

text \<open>What the run on the two pages returns when the first page holds the three-cell
  region and the second the one-cell region: row 0 of page 1 is the larger square alone,
  row 1 has no record.\<close>

definition example_out :: coco where
  "example_out =
     \<lparr>info = g_info, licenses = [],
      images = [\<lparr>file_name = ''p1.jpg'', height = 200, width = 100, img_id = 0\<rparr>,
                \<lparr>file_name = ''p2.jpg'', height = 200, width = 100, img_id = 1\<rparr>],
      annotations =
        [\<lparr>segmentation = [[5, 0, 8, 0, 8, 3, 5, 3, 5, 0]], area = 9, iscrowd = 0,
           image_id = 0, bbox = [5, 0, 3, 3], category_id = 1, ann_id = 0\<rparr>,
         \<lparr>segmentation = [[0, 0, 2, 0, 2, 2, 0, 2, 0, 0]], area = 4, iscrowd = 0,
           image_id = 0, bbox = [0, 0, 2, 2], category_id = 2, ann_id = 1\<rparr>,
         \<lparr>segmentation = [[5, 0, 8, 0, 8, 3, 5, 3, 5, 0]], area = 9, iscrowd = 0,
           image_id = 0, bbox = [5, 0, 3, 3], category_id = 2, ann_id = 2\<rparr>,
         \<lparr>segmentation = [[0, 0, 2, 0, 2, 2, 0, 2, 0, 0]], area = 4, iscrowd = 0,
           image_id = 1, bbox = [0, 0, 2, 2], category_id = 1, ann_id = 3\<rparr>,
         \<lparr>segmentation = [[0, 0, 2, 0, 2, 2, 0, 2, 0, 0]], area = 4, iscrowd = 0,
           image_id = 1, bbox = [0, 0, 2, 2], category_id = 2, ann_id = 4\<rparr>],
      categories = g_categories\<rparr>"

text \<open>The records of the three-cell region alone, converted as image 0.\<close>

definition example_region_records :: "annotation list" where
  "example_region_records =
     [\<lparr>segmentation = [[5, 0, 8, 0, 8, 3, 5, 3, 5, 0]], area = 9, iscrowd = 0,
        image_id = 0, bbox = [5, 0, 3, 3], category_id = 1, ann_id = 0\<rparr>,
      \<lparr>segmentation = [[0, 0, 2, 0, 2, 2, 0, 2, 0, 0]], area = 4, iscrowd = 0,
        image_id = 0, bbox = [0, 0, 2, 2], category_id = 2, ann_id = 1\<rparr>,
      \<lparr>segmentation = [[5, 0, 8, 0, 8, 3, 5, 3, 5, 0]], area = 9, iscrowd = 0,
        image_id = 0, bbox = [5, 0, 3, 3], category_id = 2, ann_id = 2\<rparr>]"

text \<open>The same run with an empty first page, and with an empty second page.\<close>

definition example_out_empty1 :: coco where
  "example_out_empty1 =
     \<lparr>info = g_info, licenses = [],
      images = [\<lparr>file_name = ''p1.jpg'', height = 200, width = 100, img_id = 0\<rparr>,
                \<lparr>file_name = ''p2.jpg'', height = 200, width = 100, img_id = 1\<rparr>],
      annotations =
        [\<lparr>segmentation = [[0, 0, 2, 0, 2, 2, 0, 2, 0, 0]], area = 4, iscrowd = 0,
           image_id = 1, bbox = [0, 0, 2, 2], category_id = 1, ann_id = 0\<rparr>,
         \<lparr>segmentation = [[0, 0, 2, 0, 2, 2, 0, 2, 0, 0]], area = 4, iscrowd = 0,
           image_id = 1, bbox = [0, 0, 2, 2], category_id = 2, ann_id = 1\<rparr>],
      categories = g_categories\<rparr>"

definition example_out_empty2 :: coco where
  "example_out_empty2 =
     \<lparr>info = g_info, licenses = [],
      images = [\<lparr>file_name = ''p1.jpg'', height = 200, width = 100, img_id = 0\<rparr>,
                \<lparr>file_name = ''p2.jpg'', height = 200, width = 100, img_id = 1\<rparr>],
      annotations =
        [\<lparr>segmentation = [[5, 0, 8, 0, 8, 3, 5, 3, 5, 0]], area = 9, iscrowd = 0,
           image_id = 0, bbox = [5, 0, 3, 3], category_id = 1, ann_id = 0\<rparr>,
         \<lparr>segmentation = [[0, 0, 2, 0, 2, 2, 0, 2, 0, 0]], area = 4, iscrowd = 0,
           image_id = 0, bbox = [0, 0, 2, 2], category_id = 2, ann_id = 1\<rparr>,
         \<lparr>segmentation = [[5, 0, 8, 0, 8, 3, 5, 3, 5, 0]], area = 9, iscrowd = 0,
           image_id = 0, bbox = [5, 0, 3, 3], category_id = 2, ann_id = 2\<rparr>],
      categories = g_categories\<rparr>"


section \<open>download-voc.py\<close>

subsection \<open>Files, network and output\<close>

text \<open>
  A path is a directory (identified by the string the script uses for it) and a file
  name; the working directory is \<open>''.''\<close>. An entry is a file with its content or a
  subdirectory. The entries are kept in a list, whose order is the order in which
  \<open>glob\<close> lists a directory.
\<close>

type_synonym fpath = "string \<times> string"

datatype entry = File string | SubDir

text \<open>Every \<open>print\<close> of the script, with the values it interpolates.\<close>

datatype msg =
    Downloading_xml | Downloaded_xml
  | Downloaded_METS fpath
  | Renamed string string
  | Skipping_no_METS string string
  | Downloading_METS string
  | Error_no_div string string
  | Already_exists fpath
  | Downloading_image string
  | Saved_image fpath
  | Error_value string
  | Usage
  | Source_missing string
  | Deleted_METS fpath

record world =
  entries :: "(fpath \<times> entry) list"
  dirs :: "string list"
  stdout :: "msg list"
  requests :: "string list"

text \<open>
  The network and the XML parser are parameters: \<open>http_get url\<close> is
  \<open>requests.get(url)\<close> followed by \<open>raise_for_status()\<close> (\<open>Inr\<close> the content; \<open>Inl ValueError\<close>
  for a URL that requests rejects, whose exceptions are \<open>ValueError\<close>s; \<open>Inl HTTPError\<close> or
  \<open>Inl OSError\<close> otherwise), and \<open>ET_parse\<close> is \<open>ET.parse\<close> on the content of a file
  (\<open>None\<close> is its \<open>ParseError\<close>). Tags and attribute names of a parsed tree are expanded
  names, \<open>{uri}local\<close>.
\<close>

record dl_env =
  http_get :: "string \<Rightarrow> py_error + string"
  ET_parse :: "string \<Rightarrow> xml option"

definition XML_DOWNLOAD_URL :: string where
  "XML_DOWNLOAD_URL = ''https://www.nationaalarchief.nl/onderzoeken/archief/1.04.02/download/xml''"

definition XML_FILENAME :: fpath where
  "XML_FILENAME = (''.'', ''1.04.02.xml'')"

definition mets_ns :: "string \<Rightarrow> string" where
  "mets_ns local = ''{http://www.loc.gov/METS/}'' @ local"

definition xlink_href :: string where
  "xlink_href = ''{http://www.w3.org/1999/xlink}href''"

definition lookup :: "world \<Rightarrow> fpath \<Rightarrow> entry option" where
  "lookup s p = map_of (entries s) p"

definition path_present :: "world \<Rightarrow> fpath \<Rightarrow> bool" where
  "path_present s p = (lookup s p \<noteq> None)"

definition dir_exists :: "world \<Rightarrow> string \<Rightarrow> bool" where
  "dir_exists s d = (d = ''.'' \<or> d \<in> set (dirs s))"

fun alist_update :: "'k \<Rightarrow> 'v \<Rightarrow> ('k \<times> 'v) list \<Rightarrow> ('k \<times> 'v) list" where
  "alist_update k v [] = [(k, v)]"
| "alist_update k v ((k', v') # xs) =
     (if k = k' then (k, v) # xs else (k', v') # alist_update k v xs)"

definition print :: "msg \<Rightarrow> world \<Rightarrow> world" where
  "print m s = s\<lparr>stdout := stdout s @ [m]\<rparr>"

text \<open>\<open>with open(path, "wb") as f: f.write(content)\<close>.\<close>

definition write_file :: "fpath \<Rightarrow> string \<Rightarrow> world \<Rightarrow> py_error + world" where
  "write_file p content s =
     (if \<not> dir_exists s (fst p) \<or> lookup s p = Some SubDir then Inl OSError
      else Inr (s\<lparr>entries := alist_update p (File content) (entries s)\<rparr>))"

text \<open>\<open>Path.unlink()\<close>.\<close>

definition unlink :: "fpath \<Rightarrow> world \<Rightarrow> py_error + world" where
  "unlink p s =
     (case lookup s p of
        Some (File content) \<Rightarrow> Inr (s\<lparr>entries := filter (\<lambda>e. fst e \<noteq> p) (entries s)\<rparr>)
      | _ \<Rightarrow> Inl OSError)"

text \<open>\<open>Path.rename(target)\<close>: the target is replaced when it is a file; renaming onto
  an existing directory is taken to fail.\<close>

definition rename :: "fpath \<Rightarrow> fpath \<Rightarrow> world \<Rightarrow> py_error + world" where
  "rename p q s =
     (case lookup s p of
        None \<Rightarrow> Inl OSError
      | Some e \<Rightarrow>
          (if lookup s q = Some SubDir then Inl OSError
           else if p = q then Inr s
           else Inr (s\<lparr>entries := alist_update q e (filter (\<lambda>x. fst x \<noteq> p) (entries s))\<rparr>)))"

definition ends_with :: "string \<Rightarrow> string \<Rightarrow> bool" where
  "ends_with sfx nm = (length sfx \<le> length nm \<and> drop (length nm - length sfx) nm = sfx)"

text \<open>\<open>d.glob("*.xml")\<close>: the names in \<open>d\<close> that end in \<open>.xml\<close> (pathlib's \<open>*\<close> also
  matches a leading dot), as listed when the call is made.\<close>

definition glob_xml :: "world \<Rightarrow> string \<Rightarrow> string list" where
  "glob_xml s d =
     remdups (map (snd \<circ> fst) (filter (\<lambda>e. fst (fst e) = d \<and> ends_with ''.xml'' (snd (fst e)))
                                 (entries s)))"

text \<open>\<open>requests.get\<close> with \<open>raise_for_status\<close>; the request is recorded.\<close>

definition get :: "dl_env \<Rightarrow> string \<Rightarrow> world \<Rightarrow> world \<times> (py_error + string)" where
  "get N url s = (s\<lparr>requests := requests s @ [url]\<rparr>, http_get N url)"

text \<open>\<open>ET.parse(path).getroot()\<close>.\<close>

definition parse_file :: "dl_env \<Rightarrow> world \<Rightarrow> fpath \<Rightarrow> py_error + xml" where
  "parse_file N s p =
     (case lookup s p of
        Some (File content) \<Rightarrow>
          (case ET_parse N content of None \<Rightarrow> Inl ParseError | Some r \<Rightarrow> Inr r)
      | _ \<Rightarrow> Inl OSError)"

subsection \<open>ensure\_1\_04\_02\_xml\<close>

definition ensure_1_04_02_xml :: "dl_env \<Rightarrow> world \<Rightarrow> py_error + world" where
  "ensure_1_04_02_xml N s =
     (if \<not> path_present s XML_FILENAME then
        (case get N XML_DOWNLOAD_URL (print Downloading_xml s) of
           (s1, Inl e) \<Rightarrow> Inl e
         | (s1, Inr content) \<Rightarrow>
             ebind (write_file XML_FILENAME content s1) (\<lambda>s2. Inr (print Downloaded_xml s2)))
      else Inr s)"

subsection \<open>parse\_unitid\_mets\<close>

text \<open>The dict \<open>out\<close>: keys are \<open>uid.text\<close> and values \<open>mets.attrib.get('href')\<close>, either
  of which can be \<open>None\<close>.\<close>

type_synonym unitid_table = "string option \<rightharpoonup> string option"

definition did_entry :: "xml \<Rightarrow> (string option \<times> string option) option" where
  "did_entry did =
     (case find_child ''unitid'' did of
        None \<Rightarrow> None
      | Some uid \<Rightarrow>
          (case find_child ''dao'' did of
             None \<Rightarrow> None
           | Some mets \<Rightarrow> Some (elem_text uid, map_of (attrs mets) ''href'')))"

fun unitid_loop :: "xml list \<Rightarrow> unitid_table \<Rightarrow> unitid_table" where
  "unitid_loop [] out = out"
| "unitid_loop (did # dids) out =
     (case did_entry did of
        None \<Rightarrow> unitid_loop dids out
      | Some (k, v) \<Rightarrow> unitid_loop dids (out(k \<mapsto> v)))"

definition parse_unitid_mets :: "dl_env \<Rightarrow> world \<Rightarrow> fpath \<Rightarrow> py_error + unitid_table" where
  "parse_unitid_mets N s file_path =
     ebind (parse_file N s file_path) (\<lambda>r. Inr (unitid_loop (find_all ''did'' r) Map.empty))"

subsection \<open>extract\_inventory\_number\<close>

definition extract_inventory_number :: "string \<Rightarrow> py_error + string" where
  "extract_inventory_number filename =
     (case split ''1.04.02_'' filename of
        a # b # rest \<Rightarrow> (case split ''_'' b of c # cs \<Rightarrow> Inr c | [] \<Rightarrow> Inl ValueError)
      | _ \<Rightarrow> Inl ValueError)"

subsection \<open>download\_mets\<close>

definition download_mets :: "dl_env \<Rightarrow> string \<Rightarrow> fpath \<Rightarrow> world \<Rightarrow> py_error + world" where
  "download_mets N url path s =
     (case get N url s of
        (s1, Inl e) \<Rightarrow> Inl e
      | (s1, Inr content) \<Rightarrow>
          ebind (write_file path content s1) (\<lambda>s2. Inr (print (Downloaded_METS path) s2)))"

subsection \<open>find\_image\_url\<close>

text \<open>
  \<open>r.find(".//tag[@attr='value']")\<close>: the first descendant with that tag whose attribute
  has that value. The value is pasted into the XPath between apostrophes; a value that
  itself contains an apostrophe is \<open>OutsideModel\<close>.
\<close>

definition find_by_attr :: "xml \<Rightarrow> string \<Rightarrow> string \<Rightarrow> string \<Rightarrow> py_error + xml option" where
  "find_by_attr r tg attr v =
     (if CHR 0x27 \<in> set v then Inl OutsideModel
      else (case filter (\<lambda>e. tag e = tg \<and> map_of (attrs e) attr = Some v) (descendants r) of
              [] \<Rightarrow> Inr None
            | e # _ \<Rightarrow> Inr (Some e)))"

text \<open>One round of the loop over \<open>(".tif", ".jpg")\<close>: \<open>Inr None\<close> goes on to the next
  extension, \<open>Inr (Some v)\<close> is \<open>return v\<close> (where \<open>v\<close> is \<open>None\<close> when \<open>FLocat\<close> has no
  \<open>href\<close>).\<close>

definition find_image_url_ext :: "xml \<Rightarrow> string \<Rightarrow> py_error + string option option" where
  "find_image_url_ext r label =
     (case find_by_attr r (mets_ns ''div'') ''LABEL'' label of
        Inl e \<Rightarrow> Inl e
      | Inr None \<Rightarrow> Inr None
      | Inr (Some div_el) \<Rightarrow>
          (case map_of (attrs div_el) ''ID'' of
             None \<Rightarrow> Inr None
           | Some div_id \<Rightarrow>
               (if div_id = [] then Inr None
                else (case find_by_attr r (mets_ns ''file'') ''ID'' (div_id @ ''DEF'') of
                        Inl e \<Rightarrow> Inl e
                      | Inr None \<Rightarrow> Inr None
                      | Inr (Some file_el) \<Rightarrow>
                          (case find_child (mets_ns ''FLocat'') file_el of
                             None \<Rightarrow> Inr None
                           | Some flocat \<Rightarrow> Inr (Some (map_of (attrs flocat) xlink_href)))))))"

fun find_image_url_loop :: "xml \<Rightarrow> string \<Rightarrow> string list \<Rightarrow> py_error + string option" where
  "find_image_url_loop r label_without_ext [] = Inr None"
| "find_image_url_loop r label_without_ext (ext # exts) =
     (case find_image_url_ext r (label_without_ext @ ext) of
        Inl e \<Rightarrow> Inl e
      | Inr (Some v) \<Rightarrow> Inr v
      | Inr None \<Rightarrow> find_image_url_loop r label_without_ext exts)"

definition find_image_url ::
  "dl_env \<Rightarrow> world \<Rightarrow> fpath \<Rightarrow> string \<Rightarrow> py_error + string option" where
  "find_image_url N s mets_file label_without_ext =
     ebind (parse_file N s mets_file)
       (\<lambda>r. find_image_url_loop r label_without_ext [''.tif'', ''.jpg''])"

subsection \<open>rename\_files\<close>

definition is_digit :: "char \<Rightarrow> bool" where
  "is_digit c = (c \<in> set ''0123456789'')"

text \<open>\<open>s.isdigit()\<close> on ASCII.\<close>

definition isdigit :: "string \<Rightarrow> bool" where
  "isdigit s = (s \<noteq> [] \<and> list_all is_digit s)"

fun rename_loop ::
  "string \<Rightarrow> string list \<Rightarrow> fpath list \<times> world \<Rightarrow> py_error + (fpath list \<times> world)" where
  "rename_loop source_dir [] (renamed, s) = Inr (renamed, s)"
| "rename_loop source_dir (nm # names) (renamed, s) =
     (if isdigit (take 4 nm) \<and> 4 < length nm \<and> nm ! 4 = CHR ''_'' then
        (case rename (source_dir, nm) (source_dir, drop 5 nm) s of
           Inl e \<Rightarrow> Inl e
         | Inr s1 \<Rightarrow>
             rename_loop source_dir names
               (renamed @ [(source_dir, drop 5 nm)], print (Renamed nm (drop 5 nm)) s1))
      else if isdigit (take 4 nm) \<and> \<not> 4 < length nm then Inl IndexError
      else rename_loop source_dir names (renamed @ [(source_dir, nm)], s))"

definition rename_files :: "string \<Rightarrow> world \<Rightarrow> py_error + (fpath list \<times> world)" where
  "rename_files source_dir s = rename_loop source_dir (glob_xml s source_dir) ([], s)"

subsection \<open>process\_file\<close>

text \<open>\<open>Path.stem\<close>: the name without its last suffix; a name whose only dot is the first
  or the last character has no suffix.\<close>

definition stem :: "string \<Rightarrow> string" where
  "stem nm =
     (let after = takeWhile (\<lambda>c. c \<noteq> CHR ''.'') (rev nm)
      in if length after = length nm \<or> after = [] \<or> length after + 1 = length nm then nm
         else take (length nm - length after - 1) nm)"

text \<open>The body of the \<open>try\<close> block. A \<open>ValueError\<close> (a URL that requests rejects) is
  caught and reported; any other exception leaves the function.\<close>

definition fetch_image ::
  "dl_env \<Rightarrow> string \<Rightarrow> string \<Rightarrow> fpath \<Rightarrow> string \<Rightarrow> world \<Rightarrow> py_error + world" where
  "fetch_image N nm target_dir mets_file label s =
     (case find_image_url N s mets_file label of
        Inl e \<Rightarrow> (if e = ValueError then Inr (print (Error_value nm) s) else Inl e)
      | Inr None \<Rightarrow> Inr (print (Error_no_div nm label) s)
      | Inr (Some image_url) \<Rightarrow>
          (if image_url = [] then Inr (print (Error_no_div nm label) s)
           else
             (let image_path = (target_dir, label @ ''.jpg'')
              in if path_present s image_path then Inr (print (Already_exists image_path) s)
                 else
                   (case get N image_url (print (Downloading_image nm) s) of
                      (s1, Inl e) \<Rightarrow>
                        (if e = ValueError then Inr (print (Error_value nm) s1) else Inl e)
                    | (s1, Inr content) \<Rightarrow>
                        (case write_file image_path content s1 of
                           Inl e \<Rightarrow>
                             (if e = ValueError then Inr (print (Error_value nm) s1) else Inl e)
                         | Inr s2 \<Rightarrow> Inr (print (Saved_image image_path) s2))))))"

text \<open>The block that downloads the manifest of a volume once per run.\<close>

definition ensure_mets ::
  "dl_env \<Rightarrow> string \<Rightarrow> string \<Rightarrow> fpath \<Rightarrow> world \<times> string set
     \<Rightarrow> py_error + (world \<times> string set)" where
  "ensure_mets N inv_no mets_url mets_file st =
     (case st of (s, processed_mets) \<Rightarrow>
        (if inv_no \<notin> processed_mets then
           ebind (download_mets N mets_url mets_file (print (Downloading_METS inv_no) s))
             (\<lambda>s1. Inr (s1, insert inv_no processed_mets))
         else Inr (s, processed_mets)))"

text \<open>\<open>process_file\<close>; the state is the world and the set \<open>processed_mets\<close>.
  \<open>extract_inventory_number\<close> is called before the \<open>try\<close>, so its \<open>ValueError\<close> is not
  caught.\<close>

definition process_file ::
  "dl_env \<Rightarrow> fpath \<Rightarrow> unitid_table \<Rightarrow> string \<Rightarrow> world \<times> string set
     \<Rightarrow> py_error + (world \<times> string set)" where
  "process_file N xml_file unitid_mets target_dir st =
     (case extract_inventory_number (snd xml_file) of
        Inl e \<Rightarrow> Inl e
      | Inr inv_no \<Rightarrow>
          (case unitid_mets (Some inv_no) of
             Some (Some mets_url) \<Rightarrow>
               (if mets_url = [] then
                  Inr (print (Skipping_no_METS (snd xml_file) inv_no) (fst st), snd st)
                else
                  ebind (ensure_mets N inv_no mets_url (target_dir, inv_no @ ''.xml'') st)
                    (\<lambda>(s1, processed1).
                       ebind (fetch_image N (snd xml_file) target_dir
                                (target_dir, inv_no @ ''.xml'') (stem (snd xml_file)) s1)
                         (\<lambda>s2. Inr (s2, processed1))))
           | _ \<Rightarrow> Inr (print (Skipping_no_METS (snd xml_file) inv_no) (fst st), snd st)))"

subsection \<open>main\<close>

fun process_loop ::
  "dl_env \<Rightarrow> fpath list \<Rightarrow> unitid_table \<Rightarrow> string \<Rightarrow> world \<times> string set
     \<Rightarrow> py_error + (world \<times> string set)" where
  "process_loop N [] unitid_mets target_dir st = Inr st"
| "process_loop N (xml_file # fs) unitid_mets target_dir st =
     (case process_file N xml_file unitid_mets target_dir st of
        Inl e \<Rightarrow> Inl e
      | Inr st1 \<Rightarrow> process_loop N fs unitid_mets target_dir st1)"

text \<open>The last loop of \<open>main\<close>, over the names \<open>glob\<close> returned.\<close>

fun delete_loop :: "string \<Rightarrow> string list \<Rightarrow> world \<Rightarrow> py_error + world" where
  "delete_loop target_dir [] s = Inr s"
| "delete_loop target_dir (nm # names) s =
     (case unlink (target_dir, nm) s of
        Inl e \<Rightarrow> Inl e
      | Inr s1 \<Rightarrow> delete_loop target_dir names (print (Deleted_METS (target_dir, nm)) s1))"

text \<open>\<open>target_dir.mkdir(parents=True, exist_ok=True)\<close>.\<close>

definition mkdir :: "string \<Rightarrow> world \<Rightarrow> world" where
  "mkdir d s = (if d \<in> set (dirs s) then s else s\<lparr>dirs := dirs s @ [d]\<rparr>)"

text \<open>\<open>main\<close> on \<open>sys.argv = argv\<close>. \<open>sys.exit(1)\<close> is the exception \<open>SystemExit 1\<close>.\<close>

definition main :: "dl_env \<Rightarrow> string list \<Rightarrow> world \<Rightarrow> py_error + world" where
  "main N argv s =
     (if length argv \<noteq> 3 then Inl (SystemExit 1)
      else
        (let source_dir = argv ! 1; target_dir = argv ! 2
         in if \<not> dir_exists s source_dir then Inl (SystemExit 1)
            else
              ebind (rename_files source_dir (mkdir target_dir s)) (\<lambda>(renamed_files, s1).
              ebind (ensure_1_04_02_xml N s1) (\<lambda>s2.
              ebind (parse_unitid_mets N s2 XML_FILENAME) (\<lambda>unitid_mets.
              ebind (process_loop N renamed_files unitid_mets target_dir (s2, {})) (\<lambda>(s3, processed).
              delete_loop target_dir (glob_xml s3 target_dir) s3))))))"

subsection \<open>The finding-aid table and the output of one call\<close>

text \<open>The pairs (text of the first \<open>unitid\<close> child, \<open>href\<close> of the first \<open>dao\<close> child) of
  the \<open>did\<close> elements below the root that have both children, in document order.\<close>

definition did_pairs :: "xml \<Rightarrow> (string option \<times> string option) list" where
  "did_pairs r =
     concat (map (\<lambda>did. case did_entry did of None \<Rightarrow> [] | Some p \<Rightarrow> [p]) (find_all ''did'' r))"

text \<open>What a call printed: the output after it, without the output before it.\<close>

definition printed :: "world \<Rightarrow> world \<Rightarrow> msg list" where
  "printed s s' = drop (length (stdout s)) (stdout s')"

subsection \<open>Example data for the downloader\<close>

text \<open>A finding aid with two volumes that have a METS link and one that has none; and
  one in which two \<open>did\<close> elements carry the same \<open>unitid\<close>.\<close>

definition mk_did :: "string \<Rightarrow> string option \<Rightarrow> xml" where
  "mk_did uid href =
     Elem ''did'' [] None
       (Elem ''unitid'' [] (Some uid) []
        # (case href of None \<Rightarrow> [] | Some h \<Rightarrow> [Elem ''dao'' [(''href'', h)] None []]))"

definition mk_ead :: "xml list \<Rightarrow> xml" where
  "mk_ead dids =
     Elem ''ead'' [] None
       [Elem ''archdesc'' [] None [Elem ''dsc'' [] None (map (\<lambda>d. Elem ''c'' [] None [d]) dids)]]"

definition example_ead :: xml where
  "example_ead =
     mk_ead [mk_did ''1234'' (Some ''https://example.org/mets/1234''),
             mk_did ''5678'' (Some ''https://example.org/mets/5678''),
             mk_did ''9999'' None]"

definition example_ead_dup :: xml where
  "example_ead_dup =
     mk_ead [mk_did ''1234'' (Some ''https://example.org/mets/A''),
             mk_did ''1234'' (Some ''https://example.org/mets/B'')]"

text \<open>The METS manifest of volume 1234: one page, labelled with the \<open>.tif\<close> name.\<close>

definition example_label :: string where
  "example_label = ''NL-HaNA_1.04.02_1234_0001''"

definition example_mets :: xml where
  "example_mets =
     Elem (mets_ns ''mets'') [] None
       [Elem (mets_ns ''fileSec'') [] None
          [Elem (mets_ns ''file'') [(''ID'', ''F1DEF'')] None
             [Elem (mets_ns ''FLocat'') [(xlink_href, ''https://example.org/img/1.jpg'')] None []]],
        Elem (mets_ns ''structMap'') [] None
          [Elem (mets_ns ''div'') [(''LABEL'', example_label @ ''.tif''), (''ID'', ''F1'')] None []]]"

text \<open>The network serves the finding aid, the manifest and the image; the parser reads
  the first two.\<close>

definition example_net :: dl_env where
  "example_net =
     \<lparr>http_get = (\<lambda>url. if url = XML_DOWNLOAD_URL then Inr ''EAD''
                         else if url = ''https://example.org/mets/1234'' then Inr ''METS''
                         else if url = ''https://example.org/img/1.jpg'' then Inr ''JPEG''
                         else Inl HTTPError),
      ET_parse = (\<lambda>content. if content = ''EAD'' then Some example_ead
                             else if content = ''METS'' then Some example_mets
                             else None)\<rparr>"

text \<open>A source directory with one page file (named with a four-digit prefix), and a
  target directory that already holds an \<open>.xml\<close> file and a text file; the same with the
  page's image already in the target directory.\<close>

definition example_world :: world where
  "example_world =
     \<lparr>entries = [((''src'', ''0001_'' @ example_label @ ''.xml''), File ''page''),
                 ((''out'', ''old.xml''), File ''old''),
                 ((''out'', ''notes.txt''), File ''notes'')],
      dirs = [''src'', ''out''], stdout = [], requests = []\<rparr>"



text \<open>A world that holds only the finding aid, and a parser that reads the finding aid
  with the repeated \<open>unitid\<close>.\<close>

definition ead_world :: "string \<Rightarrow> world" where
  "ead_world content =
     \<lparr>entries = [(XML_FILENAME, File content)], dirs = [], stdout = [], requests = []\<rparr>"

definition dup_net :: dl_env where
  "dup_net = \<lparr>http_get = (\<lambda>url. Inl HTTPError), ET_parse = (\<lambda>content. Some example_ead_dup)\<rparr>"

text \<open>The world after \<open>main\<close> ran on the example world with source \<open>src\<close> and target
  \<open>out\<close>.\<close>

definition example_final :: world where
  "example_final =
     \<lparr>entries = [((''out'', ''notes.txt''), File ''notes''),
                 ((''src'', example_label @ ''.xml''), File ''page''),
                 (XML_FILENAME, File ''EAD''),
                 ((''out'', example_label @ ''.jpg''), File ''JPEG'')],
      dirs = [''src'', ''out''],
      stdout = [Renamed (''0001_'' @ example_label @ ''.xml'') (example_label @ ''.xml''),
                Downloading_xml, Downloaded_xml, Downloading_METS ''1234'',
                Downloaded_METS (''out'', ''1234.xml''),
                Downloading_image (example_label @ ''.xml''),
                Saved_image (''out'', example_label @ ''.jpg''),
                Deleted_METS (''out'', ''old.xml''), Deleted_METS (''out'', ''1234.xml'')],
      requests = [XML_DOWNLOAD_URL, ''https://example.org/mets/1234'',
                  ''https://example.org/img/1.jpg'']\<rparr>"



section \<open>Properties of the converter\<close>

subsection \<open>Grouping cells\<close>

lemma map_of_dict_append:
  "map_of (dict_append k v d) =
     (map_of d)(k \<mapsto> (case map_of d k of None \<Rightarrow> [v] | Some vs \<Rightarrow> vs @ [v]))"
  by (induction d) (auto simp: fun_eq_iff)

lemma keys_dict_append:
  "map fst (dict_append k v d) = (if k \<in> fst ` set d then map fst d else map fst d @ [k])"
  by (induction d) force+

lemma distinct_dict_append:
  "distinct (map fst d) \<Longrightarrow> distinct (map fst (dict_append k v d))"
  by (simp add: keys_dict_append)

text \<open>The loop invariant: after the loop, the group of key \<open>k\<close> is what it was before,
  followed by the cells of key \<open>k\<close> in input order.\<close>

lemma group_loop_Inr:
  "group_loop B cells (rows, columns) = Inr (rows', columns') \<Longrightarrow>
     (\<forall>c\<in>set cells. \<exists>i j. cell_index B c ''row'' = Inr i \<and> cell_index B c ''col'' = Inr j)
   \<and> (distinct (map fst rows) \<longrightarrow> distinct (map fst rows'))
   \<and> (distinct (map fst columns) \<longrightarrow> distinct (map fst columns'))
   \<and> (\<forall>k. map_of rows' k =
          (case map_of rows k of
             None \<Rightarrow> (if filter (\<lambda>c. cell_index B c ''row'' = Inr k) cells = [] then None
                      else Some (filter (\<lambda>c. cell_index B c ''row'' = Inr k) cells))
           | Some vs \<Rightarrow> Some (vs @ filter (\<lambda>c. cell_index B c ''row'' = Inr k) cells)))
   \<and> (\<forall>k. map_of columns' k =
          (case map_of columns k of
             None \<Rightarrow> (if filter (\<lambda>c. cell_index B c ''col'' = Inr k) cells = [] then None
                      else Some (filter (\<lambda>c. cell_index B c ''col'' = Inr k) cells))
           | Some vs \<Rightarrow> Some (vs @ filter (\<lambda>c. cell_index B c ''col'' = Inr k) cells)))"
proof (induction cells arbitrary: rows columns)
  case Nil
  then show ?case by (auto split: option.splits)
next
  case (Cons cell cells)
  from Cons.prems obtain i j where
    i: "cell_index B cell ''row'' = Inr i" and j: "cell_index B cell ''col'' = Inr j"
    and rest: "group_loop B cells (dict_append i cell rows, dict_append j cell columns)
                 = Inr (rows', columns')"
    by (auto split: sum.splits)
  note IH = Cons.IH [OF rest]
  show ?case
    using IH i j
    by (auto simp: map_of_dict_append distinct_dict_append split: option.splits)
qed

lemma group_loop_total:
  "\<forall>c\<in>set cells. \<exists>i j. cell_index B c ''row'' = Inr i \<and> cell_index B c ''col'' = Inr j \<Longrightarrow>
   \<exists>rows' columns'. group_loop B cells (rows, columns) = Inr (rows', columns')"
  by (induction cells arbitrary: rows columns) auto

lemma grouped_entries:
  assumes d: "distinct (map fst d)"
    and m: "\<forall>k. map_of d k = (if filter (\<lambda>c. key c = Inr k) cells = [] then None
                               else Some (filter (\<lambda>c. key c = Inr k) cells))"
    and p: "\<forall>c\<in>set cells. \<exists>i. key c = Inr i"
  shows "(\<forall>(k, g)\<in>set d. g \<noteq> [] \<and> g = filter (\<lambda>c. key c = Inr k) cells)
       \<and> (\<forall>c\<in>set cells. \<exists>k\<in>fst ` set d. key c = Inr k)"
proof (intro conjI ballI)
  fix kg assume "kg \<in> set d"
  then have "map_of d (fst kg) = Some (snd kg)" using d by (simp add: map_of_is_SomeI)
  then show "case kg of (k, g) \<Rightarrow> g \<noteq> [] \<and> g = filter (\<lambda>c. key c = Inr k) cells"
    using m by (cases kg) (auto split: if_splits)
next
  fix c assume c: "c \<in> set cells"
  then obtain i where i: "key c = Inr i" using p by blast
  then have "filter (\<lambda>c. key c = Inr i) cells \<noteq> []" using c by (auto simp: filter_empty_conv)
  then have "map_of d i \<noteq> None" using m by simp
  then have "i \<in> fst ` set d" by (simp add: map_of_eq_None_iff)
  then show "\<exists>k\<in>fst ` set d. key c = Inr k" using i by blast
qed

text \<open>
  Claim C5. When every cell has \<open>row\<close> and \<open>col\<close> attributes that \<open>int\<close> accepts,
  \<open>group_cells_by_row_and_column\<close> returns two dicts whose keys are distinct; the group
  stored under key \<open>k\<close> is non-empty and lists, in input order, exactly the cells whose
  \<open>row\<close> (respectively \<open>col\<close>) attribute has integer value \<open>k\<close>; and every cell's key is
  a key of the dict. So every cell is in exactly one row group and one column group, and
  two cells share a group if and only if their integer keys are equal.
\<close>

theorem group_cells_by_row_and_column_groups:
  assumes "\<forall>c\<in>set cells. \<exists>i j. cell_index B c ''row'' = Inr i \<and> cell_index B c ''col'' = Inr j"
  shows "\<exists>rows columns.
           group_cells_by_row_and_column B cells = Inr (rows, columns)
         \<and> distinct (map fst rows) \<and> distinct (map fst columns)
         \<and> (\<forall>(k, g)\<in>set rows. g \<noteq> [] \<and> g = filter (\<lambda>c. cell_index B c ''row'' = Inr k) cells)
         \<and> (\<forall>(k, g)\<in>set columns. g \<noteq> [] \<and> g = filter (\<lambda>c. cell_index B c ''col'' = Inr k) cells)
         \<and> (\<forall>c\<in>set cells. \<exists>k\<in>fst ` set rows. cell_index B c ''row'' = Inr k)
         \<and> (\<forall>c\<in>set cells. \<exists>k\<in>fst ` set columns. cell_index B c ''col'' = Inr k)"
proof -
  from group_loop_total [OF assms] obtain rows columns where
    r: "group_loop B cells ([], []) = Inr (rows, columns)" by blast
  note L = group_loop_Inr [OF r]
  have dr: "distinct (map fst rows)" and dc: "distinct (map fst columns)" using L by simp_all
  have mr: "\<forall>k. map_of rows k =
              (if filter (\<lambda>c. cell_index B c ''row'' = Inr k) cells = [] then None
               else Some (filter (\<lambda>c. cell_index B c ''row'' = Inr k) cells))"
    using L by simp
  have mc: "\<forall>k. map_of columns k =
              (if filter (\<lambda>c. cell_index B c ''col'' = Inr k) cells = [] then None
               else Some (filter (\<lambda>c. cell_index B c ''col'' = Inr k) cells))"
    using L by simp
  have pr: "\<forall>c\<in>set cells. \<exists>i. cell_index B c ''row'' = Inr i" using assms by blast
  have pc: "\<forall>c\<in>set cells. \<exists>i. cell_index B c ''col'' = Inr i" using assms by blast
  show ?thesis
    using r dr dc grouped_entries [OF dr mr pr] grouped_entries [OF dc mc pc]
    unfolding group_cells_by_row_and_column_def by blast
qed

lemma example_cells_index:
  "cell_index decimal_builtins cell_a ''row'' = Inr 0"
  "cell_index decimal_builtins cell_a ''col'' = Inr 0"
  "cell_index decimal_builtins cell_b ''row'' = Inr 0"
  "cell_index decimal_builtins cell_b ''col'' = Inr 1"
  "cell_index decimal_builtins cell_c ''row'' = Inr 1"
  "cell_index decimal_builtins cell_c ''col'' = Inr 0"
  by (simp_all add: cell_index_def getitem_def ebind_def int_of_def decimal_builtins_def
        decimal_int_def strip_def is_space_def digit_table_def cell_a_def cell_b_def
        cell_c_def mk_cell_def)

theorem group_cells_by_row_and_column_groups_witness:
  "\<exists>rows columns.
      group_cells_by_row_and_column decimal_builtins [cell_a, cell_b, cell_c]
        = Inr (rows, columns)
    \<and> rows = [(0, [cell_a, cell_b]), (1, [cell_c])]
    \<and> columns = [(0, [cell_a, cell_c]), (1, [cell_b])]
    \<and> distinct (map fst rows) \<and> distinct (map fst columns)
    \<and> (\<forall>(k, g)\<in>set rows. g \<noteq> [] \<and>
          g = filter (\<lambda>c. cell_index decimal_builtins c ''row'' = Inr k) [cell_a, cell_b, cell_c])"
  using group_cells_by_row_and_column_groups [of "[cell_a, cell_b, cell_c]" decimal_builtins]
  by (simp add: example_cells_index group_cells_by_row_and_column_def)

subsection \<open>Sequencing\<close>

lemma sequence_err_map_Inr:
  "sequence_err (map f xs) = Inr ys \<longleftrightarrow> list_all2 (\<lambda>x y. f x = Inr y) xs ys"
proof (induction xs arbitrary: ys)
  case Nil
  show ?case by auto
next
  case (Cons x xs)
  show ?case
    by (auto simp: list_all2_Cons1 Cons.IH [symmetric] split: sum.splits)
qed

lemma sequence_err_append:
  "sequence_err (ms @ ns) =
     (case sequence_err ms of Inl e \<Rightarrow> Inl e
      | Inr xs \<Rightarrow> (case sequence_err ns of Inl e \<Rightarrow> Inl e | Inr ys \<Rightarrow> Inr (xs @ ys)))"
  by (induction ms) (auto split: sum.splits)

subsection \<open>The loops against the nested lists\<close>

lemma renumber_append: "renumber n (xs @ ys) = renumber n xs @ renumber (n + length xs) ys"
  by (induction xs arbitrary: n) auto

lemma length_renumber [simp]: "length (renumber n xs) = length xs"
  by (induction xs arbitrary: n) auto

lemma ann_id_renumber: "map ann_id (renumber n xs) = [n..<n + length xs]"
  by (induction xs arbitrary: n) (auto simp: upt_rec)

lemma renumber_nth:
  "i < length xs \<Longrightarrow> renumber n xs ! i = (xs ! i)\<lparr>ann_id := n + i\<rparr>"
proof (induction xs arbitrary: n i)
  case Nil
  then show ?case by simp
next
  case (Cons a xs)
  then show ?case by (cases i) auto
qed

lemma in_renumberD:
  "a \<in> set (renumber n xs) \<Longrightarrow> \<exists>b\<in>set xs. \<exists>k. a = b\<lparr>ann_id := k\<rparr>"
  by (induction xs arbitrary: n) auto

lemma anno_template_shift:
  "anno_template n idx pts obj_tag =
     (case anno_template 0 idx pts obj_tag of Inl e \<Rightarrow> Inl e | Inr a \<Rightarrow> Inr (a\<lparr>ann_id := n\<rparr>))"
  by (simp add: anno_template_def Let_def split: option.splits)

lemma emit_boundaries_eq:
  "emit_boundaries idx obj_tag bs (annos, n) =
     (case boundary_records idx obj_tag bs of
        Inl e \<Rightarrow> Inl e
      | Inr new \<Rightarrow> Inr (annos @ renumber n new, n + length new))"
proof (induction bs arbitrary: annos n)
  case Nil
  show ?case by (simp add: boundary_records_def)
next
  case (Cons b bs)
  obtain g pts where b: "b = (g, pts)" by (cases b)
  show ?case
  proof (cases "length pts \<ge> 3")
    case False
    then show ?thesis using Cons.IH [of annos n] by (simp add: b boundary_records_def)
  next
    case True
    show ?thesis
    proof (cases "anno_template 0 idx pts obj_tag")
      case (Inl e)
      then show ?thesis using True by (simp add: b boundary_records_def anno_template_shift [of n])
    next
      case (Inr a)
      then show ?thesis
        using True Cons.IH [of "annos @ [a\<lparr>ann_id := n\<rparr>]" "n + 1"]
        by (simp add: b boundary_records_def anno_template_shift [of n] split: sum.splits)
    qed
  qed
qed

lemma convert_region_eq:
  "convert_region B S idx item (annos, n) =
     (case region_records B S idx item of
        Inl e \<Rightarrow> Inl e
      | Inr new \<Rightarrow> Inr (annos @ renumber n new, n + length new))"
  by (simp add: convert_region_def region_records_def ebind_def emit_boundaries_eq
        renumber_append split: sum.splits prod.splits)

lemma convert_regions_eq:
  "convert_regions B S idx items (annos, n) =
     (case regions_records B S idx items of
        Inl e \<Rightarrow> Inl e
      | Inr new \<Rightarrow> Inr (annos @ renumber n new, n + length new))"
proof (induction items arbitrary: annos n)
  case Nil
  show ?case by (simp add: regions_records_def ebind_def)
next
  case (Cons item items)
  show ?case
    using Cons.IH
    by (simp add: regions_records_def ebind_def convert_region_eq renumber_append
          split: sum.splits)
qed

lemma images_of_Cons:
  "images_of (r # rs) = (case r of None \<Rightarrow> [] | Some (im, new) \<Rightarrow> [im]) @ images_of rs"
  by (simp add: images_of_def)

lemma annos_of_Cons:
  "annos_of (r # rs) = (case r of None \<Rightarrow> [] | Some (im, new) \<Rightarrow> new) @ annos_of rs"
  by (simp add: annos_of_def)

lemma images_of_Nil [simp]: "images_of [] = []" by (simp add: images_of_def)
lemma annos_of_Nil [simp]: "annos_of [] = []" by (simp add: annos_of_def)

lemma convert_loop_eq:
  "convert_loop B S E D fs (imgs, annos, n) =
     (case sequence_err (map (file_records B S E D) fs) of
        Inl e \<Rightarrow> Inl e
      | Inr rs \<Rightarrow>
          Inr (imgs @ images_of rs, annos @ renumber n (annos_of rs), n + length (annos_of rs)))"
proof (induction fs arbitrary: imgs annos n)
  case Nil
  show ?case by simp
next
  case (Cons f fs)
  obtain idx iid where f: "f = (idx, iid)" by (cases f)
  show ?case
  proof (cases "file_records B S E D f")
    case (Inl e)
    then show ?thesis
      by (auto simp: f file_records_def Let_def ebind_def convert_regions_eq
            split: sum.splits if_splits)
  next
    case (Inr r)
    show ?thesis
    proof (cases r)
      case None
      then have "\<not> path_exists E (path_join (ds_image_path D) (iid @ ''.jpg''))"
        using Inr by (auto simp: f file_records_def Let_def ebind_def split: sum.splits if_splits)
      then show ?thesis
        using Inr None Cons.IH [of imgs annos n]
        by (simp add: f images_of_Cons annos_of_Cons split: sum.splits)
    next
      case (Some p)
      obtain im new where p: "p = (im, new)" by (cases p)
      from Inr Some p have ex: "path_exists E (path_join (ds_image_path D) (iid @ ''.jpg''))"
        and im: "image_template E idx (path_join (ds_image_path D) (iid @ ''.jpg'')) = Inr im"
        and new: "\<exists>anno. load_annotation E D idx = Inr anno
                  \<and> regions_records B S idx (find_all ''TableRegion'' anno) = Inr new"
        by (auto simp: f file_records_def Let_def ebind_def split: sum.splits if_splits)
      from new obtain anno where anno: "load_annotation E D idx = Inr anno"
        and rr: "regions_records B S idx (find_all ''TableRegion'' anno) = Inr new" by blast
      show ?thesis
        using Inr Some p ex im anno rr
              Cons.IH [of "imgs @ [im]" "annos @ renumber n new" "n + length new"]
        by (simp add: f images_of_Cons annos_of_Cons convert_regions_eq renumber_append
              split: sum.splits)
    qed
  qed
qed

lemma convert_to_COCO_Inr:
  assumes "convert_to_COCO B S E D save_path = Inr (out, w)"
  shows "\<exists>rs. sequence_err (map (file_records B S E D) (enumerate 0 (ids D))) = Inr rs
           \<and> images out = images_of rs
           \<and> annotations out = renumber 0 (annos_of rs)
           \<and> categories out = g_categories \<and> info out = g_info \<and> licenses out = []
           \<and> w = (save_path, out)"
  using assms
  by (auto simp: convert_to_COCO_def convert_loop_eq ebind_def Let_def
        split: sum.splits if_splits)

subsection \<open>The shoelace formula\<close>





subsection \<open>Where a record comes from\<close>

lemma create_category_0:
  "create_category 0 =
     Inr ([\<lparr>supercategory = ''layout'', cat_id = 1, cat_name = ''TableRow''\<rparr>,
           \<lparr>supercategory = ''layout'', cat_id = 2, cat_name = ''TableColumn''\<rparr>],
          [(''TableRow'', 1), (''TableColumn'', 2)])"
  by (simp add: create_category_def find_categories_def ebind_def)

lemma g_categories_eq:
  "g_categories = [\<lparr>supercategory = ''layout'', cat_id = 1, cat_name = ''TableRow''\<rparr>,
                   \<lparr>supercategory = ''layout'', cat_id = 2, cat_name = ''TableColumn''\<rparr>]"
  by (simp add: g_categories_def create_category_0)

lemma g_categories_conversion_eq:
  "g_categories_conversion = [(''TableRow'', 1), (''TableColumn'', 2)]"
  by (simp add: g_categories_conversion_def create_category_0)

lemma anno_template_Inr:
  assumes "anno_template n idx pts obj_tag = Inr a"
  shows "pts \<noteq> []" "ann_id a = n" "image_id a = idx" "iscrowd a = 0"
    "segmentation a = [flatten pts]" "area a = cal_ployarea pts"
    "bbox a = [Min (set (map fst pts)), Min (set (map snd pts)),
               Max (set (map fst pts)) - Min (set (map fst pts)),
               Max (set (map snd pts)) - Min (set (map snd pts))]"
    "map_of g_categories_conversion obj_tag = Some (category_id a)"
  using assms by (auto simp: anno_template_def Let_def split: if_splits option.splits)

lemma boundary_records_Inr:
  "boundary_records idx obj_tag bs = Inr new \<longleftrightarrow>
     list_all2 (\<lambda>b a. anno_template 0 idx (snd b) obj_tag = Inr a)
       (filter (\<lambda>(g, pts). 3 \<le> length pts) bs) new"
  by (simp add: boundary_records_def sequence_err_map_Inr case_prod_unfold)

lemma boundary_records_origin:
  assumes "boundary_records idx obj_tag bs = Inr new" "a \<in> set new"
  shows "\<exists>pts. 3 \<le> length pts \<and> anno_template 0 idx pts obj_tag = Inr a"
proof -
  from assms(1) have l: "list_all2 (\<lambda>b a. anno_template 0 idx (snd b) obj_tag = Inr a)
       (filter (\<lambda>(g, pts). 3 \<le> length pts) bs) new"
    by (simp add: boundary_records_Inr)
  from assms(2) obtain i where i: "i < length new" "new ! i = a" by (auto simp: in_set_conv_nth)
  let ?k = "filter (\<lambda>(g, pts). 3 \<le> length pts) bs"
  have len: "length ?k = length new" using l by (rule list_all2_lengthD)
  have "anno_template 0 idx (snd (?k ! i)) obj_tag = Inr a"
    using l i by (auto simp: list_all2_conv_all_nth)
  moreover have "?k ! i \<in> set ?k" using i len by (intro nth_mem) simp
  then have "3 \<le> length (snd (?k ! i))" by (simp add: case_prod_unfold)
  ultimately show ?thesis by blast
qed

lemma region_records_origin:
  assumes "region_records B S idx item = Inr new" "a \<in> set new"
  shows "origin a idx"
proof -
  from assms(1) obtain rb cb ra ca where
    ra: "boundary_records idx ''TableRow'' rb = Inr ra"
    and ca: "boundary_records idx ''TableColumn'' cb = Inr ca"
    and new: "new = ra @ ca"
    by (auto simp: region_records_def ebind_def split: sum.splits prod.splits)
  from assms(2) new consider "a \<in> set ra" | "a \<in> set ca" by auto
  then show ?thesis
  proof cases
    case 1
    from boundary_records_origin [OF ra 1] show ?thesis unfolding origin_def by blast
  next
    case 2
    from boundary_records_origin [OF ca 2] show ?thesis unfolding origin_def by blast
  qed
qed

lemma regions_records_origin:
  assumes "regions_records B S idx items = Inr new" "a \<in> set new"
  shows "origin a idx"
proof -
  from assms(1) obtain rs where rs: "list_all2 (\<lambda>x y. region_records B S idx x = Inr y) items rs"
    and new: "new = concat rs"
    by (auto simp: regions_records_def ebind_def sequence_err_map_Inr split: sum.splits)
  from assms(2) new obtain r where r: "r \<in> set rs" "a \<in> set r" by auto
  then obtain i where i: "i < length rs" "rs ! i = r" by (auto simp: in_set_conv_nth)
  then have "region_records B S idx (items ! i) = Inr r"
    using rs by (auto simp: list_all2_conv_all_nth)
  then show ?thesis using r(2) by (rule region_records_origin)
qed

lemma file_records_Some:
  assumes "file_records B S E D f = Inr (Some (im, new))"
  shows "image_template E (fst f) (path_join (ds_image_path D) (snd f @ ''.jpg'')) = Inr im"
    and "path_exists E (path_join (ds_image_path D) (snd f @ ''.jpg''))"
    and "\<exists>anno. load_annotation E D (fst f) = Inr anno
           \<and> regions_records B S (fst f) (find_all ''TableRegion'' anno) = Inr new"
  using assms
  by (auto simp: file_records_def Let_def ebind_def split: sum.splits if_splits)

lemma file_records_origin:
  assumes "file_records B S E D f = Inr (Some (im, new))" "a \<in> set new"
  shows "origin a (fst f)"
  using file_records_Some(3) [OF assms(1)] assms(2) regions_records_origin by blast

lemma image_template_Inr:
  assumes "image_template E idx path = Inr im"
  shows "img_id im = idx" "file_name im = basename path"
    "imagesize_get E path = Inr (width im, height im)"
  using assms by (auto simp: image_template_def ebind_def split: sum.splits prod.splits)

lemma annos_of_member:
  "a \<in> set (annos_of rs) \<longleftrightarrow> (\<exists>im new. Some (im, new) \<in> set rs \<and> a \<in> set new)"
  by (auto simp: annos_of_def split: option.splits)

lemma images_of_member:
  "im \<in> set (images_of rs) \<longleftrightarrow> (\<exists>new. Some (im, new) \<in> set rs)"
  by (auto simp: images_of_def split: option.splits)

lemma sequence_member:
  assumes "sequence_err (map f xs) = Inr ys" "y \<in> set ys"
  shows "\<exists>x\<in>set xs. f x = Inr y"
proof -
  from assms(1) have l: "list_all2 (\<lambda>x y. f x = Inr y) xs ys" by (simp add: sequence_err_map_Inr)
  from assms(2) obtain i where i: "i < length ys" "ys ! i = y" by (auto simp: in_set_conv_nth)
  have len: "length xs = length ys" using l by (rule list_all2_lengthD)
  have "f (xs ! i) = Inr y" using l i by (auto simp: list_all2_conv_all_nth)
  moreover have "xs ! i \<in> set xs" using i len by (intro nth_mem) simp
  ultimately show ?thesis by blast
qed

lemma record_origin:
  assumes "convert_to_COCO B S E D save_path = Inr (out, w)"
    and "a \<in> set (annotations out)"
  shows "\<exists>pts obj_tag. (obj_tag = ''TableRow'' \<or> obj_tag = ''TableColumn'')
           \<and> 3 \<le> length pts \<and> image_id a < length (ids D)
           \<and> anno_template (ann_id a) (image_id a) pts obj_tag = Inr a"
proof -
  from convert_to_COCO_Inr [OF assms(1)] obtain rs where
    rs: "sequence_err (map (file_records B S E D) (enumerate 0 (ids D))) = Inr rs"
    and an: "annotations out = renumber 0 (annos_of rs)" by blast
  from assms(2) an have "a \<in> set (renumber 0 (annos_of rs))" by simp
  from in_renumberD [OF this] obtain b k where
    b: "b \<in> set (annos_of rs)" and a: "a = b\<lparr>ann_id := k\<rparr>" by blast
  from b obtain im new where r: "Some (im, new) \<in> set rs" and bn: "b \<in> set new"
    by (auto simp: annos_of_member)
  from sequence_member [OF rs r] obtain f where f: "f \<in> set (enumerate 0 (ids D))"
    and fr: "file_records B S E D f = Inr (Some (im, new))" by blast
  from file_records_origin [OF fr bn] obtain pts obj_tag where
    t: "obj_tag = ''TableRow'' \<or> obj_tag = ''TableColumn''" and l: "3 \<le> length pts"
    and at: "anno_template 0 (fst f) pts obj_tag = Inr b"
    unfolding origin_def by blast
  have idx: "fst f < length (ids D)" using f by (simp add: in_set_enumerate_eq)
  have "anno_template k (fst f) pts obj_tag = Inr a"
    using at a by (simp add: anno_template_shift [of k])
  moreover from this have "ann_id a = k" "image_id a = fst f"
    by (simp_all add: anno_template_Inr)
  ultimately show ?thesis using t l idx by auto
qed

subsection \<open>Ids, categories, boxes and areas\<close>

lemma example_run:
  "convert_to_COCO decimal_builtins disjoint_lib (example_env (page_of [region_abc]) (page_of [region_a]))
     example_dataset ''out.json'' = Inr (example_out, (''out.json'', example_out))"
  by code_simp

lemma unflatten_flatten [simp]: "unflatten (flatten pts) = pts"
  by (induction pts) (auto simp: flatten_def)

lemma image_id_renumber: "map image_id (renumber n xs) = map image_id xs"
  by (induction xs arbitrary: n) auto

lemma origin_image_id: "origin a idx \<Longrightarrow> image_id a = idx"
  unfolding origin_def using anno_template_Inr(3) by blast

lemma sorted_map_const: "\<forall>a\<in>set xs. g a = (c::nat) \<Longrightarrow> sorted (map g xs)"
  by (induction xs) auto

lemma annos_image_id_sorted:
  assumes "sequence_err (map (file_records B S E D) fs) = Inr rs" "sorted (map fst fs)"
  shows "sorted (map image_id (annos_of rs)) \<and> (\<forall>a\<in>set (annos_of rs). image_id a \<in> fst ` set fs)"
  using assms
proof (induction fs arbitrary: rs)
  case Nil
  then show ?case by simp
next
  case (Cons f fs)
  from Cons.prems(1) obtain r rs' where rs: "rs = r # rs'"
    and r: "file_records B S E D f = Inr r"
    and rs': "sequence_err (map (file_records B S E D) fs) = Inr rs'"
    by (auto split: sum.splits)
  from Cons.prems(2) have s: "sorted (map fst fs)" and le: "\<forall>g\<in>set fs. fst f \<le> fst g" by auto
  note IH = Cons.IH [OF rs' s]
  have new: "\<forall>a\<in>set (case r of None \<Rightarrow> [] | Some (im, new) \<Rightarrow> new). image_id a = fst f"
  proof (cases r)
    case None
    then show ?thesis by simp
  next
    case (Some p)
    obtain im new where p: "p = (im, new)" by (cases p)
    have "image_id a = fst f" if "a \<in> set new" for a
      using origin_image_id [OF file_records_origin [OF r [unfolded Some p] that]] .
    then show ?thesis by (simp add: Some p)
  qed
  have "sorted (map image_id (case r of None \<Rightarrow> [] | Some (im, new) \<Rightarrow> new))"
    using new by (rule sorted_map_const)
  moreover have "fst f \<le> image_id x" if "x \<in> set (annos_of rs')" for x
  proof -
    from IH that obtain g where "g \<in> set fs" "image_id x = fst g" by auto
    then show ?thesis using le by simp
  qed
  ultimately show ?case
    using IH new unfolding rs annos_of_Cons
    by (auto simp: sorted_append)
qed

lemma region_records_split:
  assumes "region_records B S idx item = Inr new"
  shows "\<exists>ra ca. new = ra @ ca \<and> (\<forall>a\<in>set ra. category_id a = 1)
           \<and> (\<forall>a\<in>set ca. category_id a = 2)"
proof -
  from assms obtain rb cb ra ca where
    ra: "boundary_records idx ''TableRow'' rb = Inr ra"
    and ca: "boundary_records idx ''TableColumn'' cb = Inr ca"
    and new: "new = ra @ ca"
    by (auto simp: region_records_def ebind_def split: sum.splits prod.splits)
  have "category_id a = 1" if "a \<in> set ra" for a
    using boundary_records_origin [OF ra that] anno_template_Inr(8)
    by (fastforce simp: g_categories_conversion_eq)
  moreover have "category_id a = 2" if "a \<in> set ca" for a
    using boundary_records_origin [OF ca that] anno_template_Inr(8)
    by (fastforce simp: g_categories_conversion_eq)
  ultimately show ?thesis using new by blast
qed

text \<open>
  Claim C8. When \<open>convert_to_COCO\<close> returns, the ids of the annotation records are
  \<open>0, 1, \<dots>, n - 1\<close> in the order of the output list (so they are unique and
  consecutive from 0). That list is the records of the files in the order of the
  dataset's id list (\<open>file_records\<close> over \<open>enumerate(self._ids)\<close>, so \<open>image_id\<close> never
  decreases along it), within a file those of its table regions in document order
  (\<open>regions_records\<close>), within a region the row records (category 1) before the column
  records (category 2). Every image record's id is the index of its file in the id list.
\<close>

theorem convert_to_COCO_ids:
  assumes "convert_to_COCO B S E D save_path = Inr (out, w)"
  shows "map ann_id (annotations out) = [0..<length (annotations out)]
       \<and> (\<exists>rs. sequence_err (map (file_records B S E D) (enumerate 0 (ids D))) = Inr rs
              \<and> annotations out = renumber 0 (annos_of rs) \<and> images out = images_of rs)
       \<and> sorted (map image_id (annotations out))
       \<and> (\<forall>idx items new. regions_records B S idx items = Inr new \<longrightarrow>
             (\<exists>rs. list_all2 (\<lambda>item r. region_records B S idx item = Inr r) items rs
                  \<and> new = concat rs))
       \<and> (\<forall>idx item new. region_records B S idx item = Inr new \<longrightarrow>
             (\<exists>ra ca. new = ra @ ca \<and> (\<forall>a\<in>set ra. category_id a = 1)
                \<and> (\<forall>a\<in>set ca. category_id a = 2)))
       \<and> (\<forall>im\<in>set (images out). img_id im < length (ids D)
             \<and> file_name im = basename (path_join (ds_image_path D) (ids D ! img_id im @ ''.jpg'')))"
proof -
  from convert_to_COCO_Inr [OF assms] obtain rs where
    rs: "sequence_err (map (file_records B S E D) (enumerate 0 (ids D))) = Inr rs"
    and im: "images out = images_of rs"
    and an: "annotations out = renumber 0 (annos_of rs)" by blast
  have 1: "map ann_id (annotations out) = [0..<length (annotations out)]"
    by (simp add: an ann_id_renumber)
  have "sorted (map fst (enumerate 0 (ids D)))" by (simp add: map_fst_enumerate)
  from annos_image_id_sorted [OF rs this]
  have 3: "sorted (map image_id (annotations out))" by (simp add: an image_id_renumber)
  have 4: "img_id i < length (ids D)
       \<and> file_name i = basename (path_join (ds_image_path D) (ids D ! img_id i @ ''.jpg''))"
    if "i \<in> set (images out)" for i
  proof -
    from that im obtain new where "Some (i, new) \<in> set rs" by (auto simp: images_of_member)
    from sequence_member [OF rs this] obtain f where f: "f \<in> set (enumerate 0 (ids D))"
      and fr: "file_records B S E D f = Inr (Some (i, new))" by blast
    from f have "fst f < length (ids D)" "snd f = ids D ! fst f"
      by (simp_all add: in_set_enumerate_eq)
    then show ?thesis
      using image_template_Inr [OF file_records_Some(1) [OF fr]] by simp
  qed
  have 5: "\<exists>rs. list_all2 (\<lambda>item r. region_records B S idx item = Inr r) items rs
                \<and> new = concat rs"
    if "regions_records B S idx items = Inr new" for idx items new
    using that
    by (auto simp: regions_records_def ebind_def sequence_err_map_Inr split: sum.splits)
  have 2: "\<exists>rs. sequence_err (map (file_records B S E D) (enumerate 0 (ids D))) = Inr rs
              \<and> annotations out = renumber 0 (annos_of rs) \<and> images out = images_of rs"
    using rs an im by blast
  show ?thesis
    using 1 2 3 4 5 region_records_split [of B S] by (intro conjI allI impI ballI) blast+
qed

theorem convert_to_COCO_ids_witness:
  "map ann_id (annotations example_out) = [0, 1, 2, 3, 4]
     \<and> map image_id (annotations example_out) = [0, 0, 0, 1, 1]
     \<and> map img_id (images example_out) = [0, 1]
     \<and> sorted (map image_id (annotations example_out))"
  using convert_to_COCO_ids [OF example_run]
  by (simp add: example_out_def)

text \<open>
  Claim C7. Every annotation record of the output has \<open>category_id\<close> 1 (\<open>TableRow\<close>) or 2
  (\<open>TableColumn\<close>), and the \<open>categories\<close> list of the output is exactly these two
  categories.
\<close>

theorem converter_categories:
  assumes "convert_to_COCO B S E D save_path = Inr (out, w)"
  shows "(\<forall>a\<in>set (annotations out). category_id a = 1 \<or> category_id a = 2)
       \<and> categories out =
           [\<lparr>supercategory = ''layout'', cat_id = 1, cat_name = ''TableRow''\<rparr>,
            \<lparr>supercategory = ''layout'', cat_id = 2, cat_name = ''TableColumn''\<rparr>]"
proof -
  have "category_id a = 1 \<or> category_id a = 2" if "a \<in> set (annotations out)" for a
  proof -
    from record_origin [OF assms that] obtain pts obj_tag where
      t: "obj_tag = ''TableRow'' \<or> obj_tag = ''TableColumn''"
      and at: "anno_template (ann_id a) (image_id a) pts obj_tag = Inr a" by blast
    from anno_template_Inr(8) [OF at] t show ?thesis
      by (auto simp: g_categories_conversion_eq)
  qed
  moreover have "categories out = g_categories"
    using convert_to_COCO_Inr [OF assms] by blast
  ultimately show ?thesis by (simp add: g_categories_eq)
qed

theorem converter_categories_witness:
  "map category_id (annotations example_out) = [1, 2, 2, 1, 2]
     \<and> map cat_id (categories example_out) = [1, 2]
     \<and> map cat_name (categories example_out) = [''TableRow'', ''TableColumn'']"
  using converter_categories [OF example_run]
  by (simp add: example_out_def g_categories_eq)



subsection \<open>Groups and their records\<close>

lemma cell_polygons_Inr:
  "cell_polygons B S cells = Inr ps \<Longrightarrow>
     ps = map (\<lambda>c. cell_polygon S (cell_coords B c)) (filter (\<lambda>c. 3 \<le> n_points B c) cells)"
proof (induction cells arbitrary: ps)
  case Nil
  then show ?case by simp
next
  case (Cons cell cells)
  from Cons.prems obtain c coords ps' where
    c: "find_first ''Coords'' cell = Some c"
    and co: "cvt_coords_to_array B c = Inr coords"
    and ps': "cell_polygons B S cells = Inr ps'"
    and ps: "ps = (if 3 \<le> length coords then cell_polygon S coords # ps' else ps')"
    by (auto split: option.splits sum.splits if_splits)
  have cc: "cell_coords B cell = coords" by (simp add: cell_coords_def c co)
  show ?case using Cons.IH [OF ps'] ps by (simp add: n_points_def cc)
qed

lemma group_polygons_eq:
  "cell_polygons B S cells = Inr ps \<Longrightarrow> group_polygons B S cells = ps"
  by (simp add: group_polygons_def)

lemma cell_polygons_empty:
  assumes "cell_polygons B S cells = Inr ps"
  shows "ps = [] \<longleftrightarrow> list_all (\<lambda>c. n_points B c < 3) cells"
  unfolding cell_polygons_Inr [OF assms]
  by (auto simp: filter_empty_conv list_all_iff not_le)

lemma group_boundary_cases:
  assumes "group_boundary S ps = Inr b"
  shows "(b = None \<and> (ps = [] \<or> (geom_type S (unary_union S ps) \<noteq> ''Polygon''
                                  \<and> geom_type S (unary_union S ps) \<noteq> ''MultiPolygon'')))
       \<or> (b = Some (union_outline S (unary_union S ps)) \<and> ps \<noteq> []
            \<and> (geom_type S (unary_union S ps) = ''Polygon''
                \<or> geom_type S (unary_union S ps) = ''MultiPolygon''))"
  using assms
  by (auto simp: group_boundary_def union_outline_def Let_def split: if_splits list.splits)

lemma calculate_group_boundaries_kept:
  "calculate_group_boundaries B S d = Inr bs \<Longrightarrow>
     filter (\<lambda>(g, pts). 3 \<le> length pts) bs =
       map (\<lambda>g. (fst g, group_outline B S g)) (filter (\<lambda>g. \<not> skipped_group B S g) d)"
proof (induction d arbitrary: bs)
  case Nil
  then show ?case by simp
next
  case (Cons g d)
  obtain k cells where g: "g = (k, cells)" by (cases g)
  from Cons.prems obtain ps b bs' where
    ps: "cell_polygons B S cells = Inr ps"
    and b: "group_boundary S ps = Inr b"
    and bs': "calculate_group_boundaries B S d = Inr bs'"
    and bs: "bs = (case b of None \<Rightarrow> bs' | Some pts \<Rightarrow> (k, pts) # bs')"
    by (auto simp: g split: sum.splits option.splits)
  note IH = Cons.IH [OF bs']
  have gp: "group_polygons B S (snd g) = ps" using ps by (simp add: g group_polygons_eq)
  have em: "ps = [] \<longleftrightarrow> list_all (\<lambda>c. n_points B c < 3) (snd g)"
    using cell_polygons_empty [OF ps] by (simp add: g)
  from group_boundary_cases [OF b] consider
      (none) "b = None"
        "ps = [] \<or> (geom_type S (unary_union S ps) \<noteq> ''Polygon''
                        \<and> geom_type S (unary_union S ps) \<noteq> ''MultiPolygon'')"
    | (some) "b = Some (union_outline S (unary_union S ps))" "ps \<noteq> []"
        "geom_type S (unary_union S ps) = ''Polygon''
                \<or> geom_type S (unary_union S ps) = ''MultiPolygon''"
    by blast
  then show ?case
  proof cases
    case none
    then have "skipped_group B S g" "bs = bs'"
      using em bs by (auto simp: skipped_group_def gp)
    then show ?thesis using IH by simp
  next
    case some
    note s = some(1) and ne = some(2) and t = some(3)
    have go: "group_outline B S g = union_outline S (unary_union S ps)"
      by (simp add: group_outline_def gp)
    have sk: "skipped_group B S g \<longleftrightarrow> length (group_outline B S g) < 3"
      using ne em t by (auto simp: skipped_group_def gp)
    show ?thesis using IH s bs sk go by (auto simp: g)
  qed
qed

lemma boundary_records_fields:
  assumes "boundary_records idx obj_tag bs = Inr new"
  shows "map segmentation new =
           map (\<lambda>b. [flatten (snd b)]) (filter (\<lambda>(g, pts). 3 \<le> length pts) bs)"
    and "length new = length (filter (\<lambda>(g, pts). 3 \<le> length pts) bs)"
    and "\<forall>a\<in>set new. image_id a = idx \<and> length (bbox a) = 4
            \<and> map_of g_categories_conversion obj_tag = Some (category_id a)"
proof -
  let ?k = "filter (\<lambda>(g, pts). 3 \<le> length pts) bs"
  from assms have l: "list_all2 (\<lambda>b a. anno_template 0 idx (snd b) obj_tag = Inr a) ?k new"
    by (simp add: boundary_records_Inr)
  then show len: "length new = length ?k" by (simp add: list_all2_lengthD)
  show "map segmentation new = map (\<lambda>b. [flatten (snd b)]) ?k"
  proof (rule nth_equalityI)
    show "length (map segmentation new) = length (map (\<lambda>b. [flatten (snd b)]) ?k)"
      using len by simp
  next
    fix i assume "i < length (map segmentation new)"
    then have i: "i < length new" by simp
    then have "anno_template 0 idx (snd (?k ! i)) obj_tag = Inr (new ! i)"
      using l by (auto simp: list_all2_conv_all_nth)
    from anno_template_Inr(5) [OF this]
    show "map segmentation new ! i = map (\<lambda>b. [flatten (snd b)]) ?k ! i"
      using i len by simp
  qed
  show "\<forall>a\<in>set new. image_id a = idx \<and> length (bbox a) = 4
            \<and> map_of g_categories_conversion obj_tag = Some (category_id a)"
  proof
    fix a assume "a \<in> set new"
    from boundary_records_origin [OF assms this] obtain pts where
      "anno_template 0 idx pts obj_tag = Inr a" by blast
    from anno_template_Inr [OF this]
    show "image_id a = idx \<and> length (bbox a) = 4
            \<and> map_of g_categories_conversion obj_tag = Some (category_id a)" by simp
  qed
qed

lemma region_records_Inr:
  assumes "region_records B S idx item = Inr new"
  shows "\<exists>rows columns ra ca.
           group_cells_by_row_and_column B (find_all ''TableCell'' item) = Inr (rows, columns)
         \<and> new = ra @ ca
         \<and> map segmentation ra =
             map (\<lambda>g. [flatten (group_outline B S g)]) (filter (\<lambda>g. \<not> skipped_group B S g) rows)
         \<and> map segmentation ca =
             map (\<lambda>g. [flatten (group_outline B S g)]) (filter (\<lambda>g. \<not> skipped_group B S g) columns)
         \<and> (\<forall>a\<in>set ra. category_id a = 1) \<and> (\<forall>a\<in>set ca. category_id a = 2)
         \<and> (\<forall>a\<in>set new. image_id a = idx \<and> length (bbox a) = 4)"
proof -
  from assms obtain rows columns rb cb ra ca where
    g: "group_cells_by_row_and_column B (find_all ''TableCell'' item) = Inr (rows, columns)"
    and rb: "calculate_group_boundaries B S rows = Inr rb"
    and cb: "calculate_group_boundaries B S columns = Inr cb"
    and ra: "boundary_records idx ''TableRow'' rb = Inr ra"
    and ca: "boundary_records idx ''TableColumn'' cb = Inr ca"
    and new: "new = ra @ ca"
    by (auto simp: region_records_def ebind_def split: sum.splits prod.splits)
  note fr = boundary_records_fields [OF ra] and fc = boundary_records_fields [OF ca]
  have sr: "map segmentation ra =
             map (\<lambda>g. [flatten (group_outline B S g)]) (filter (\<lambda>g. \<not> skipped_group B S g) rows)"
    by (simp add: fr(1) calculate_group_boundaries_kept [OF rb])
  have sc: "map segmentation ca =
             map (\<lambda>g. [flatten (group_outline B S g)]) (filter (\<lambda>g. \<not> skipped_group B S g) columns)"
    by (simp add: fc(1) calculate_group_boundaries_kept [OF cb])
  have "\<forall>a\<in>set ra. category_id a = 1" using fr(3) by (auto simp: g_categories_conversion_eq)
  moreover have "\<forall>a\<in>set ca. category_id a = 2" using fc(3) by (auto simp: g_categories_conversion_eq)
  moreover have "\<forall>a\<in>set new. image_id a = idx \<and> length (bbox a) = 4"
    using fr(3) fc(3) new by auto
  ultimately show ?thesis using g new sr sc by blast
qed

text \<open>
  Claim C1, as amended. For a table region that \<open>convert_to_COCO\<close> converts without an
  exception, the records appended for the region number its row groups plus its column
  groups, minus the groups that yield no record: those in which no cell has at least
  three points, those whose union is neither a \<open>Polygon\<close> nor a \<open>MultiPolygon\<close>, and those
  whose outline has fewer than three points (\<open>skipped_group\<close>). The claim as written
  subtracts only the groups that contain zero points; it fails on a region whose one cell
  has two points.
\<close>

theorem region_record_count:
  assumes "convert_region B S idx item (annos, n) = Inr (annos', n')"
  shows "\<exists>rows columns new.
           group_cells_by_row_and_column B (find_all ''TableCell'' item) = Inr (rows, columns)
         \<and> annos' = annos @ new \<and> n' = n + length new
         \<and> length new + length (filter (skipped_group B S) rows)
                      + length (filter (skipped_group B S) columns)
             = length rows + length columns"
proof -
  from assms obtain new where new: "region_records B S idx item = Inr new"
    and a: "annos' = annos @ renumber n new" and n: "n' = n + length new"
    by (auto simp: convert_region_eq split: sum.splits)
  from region_records_Inr [OF new] obtain rows columns ra ca where
    g: "group_cells_by_row_and_column B (find_all ''TableCell'' item) = Inr (rows, columns)"
    and rc: "new = ra @ ca"
    and sr: "map segmentation ra =
             map (\<lambda>g. [flatten (group_outline B S g)]) (filter (\<lambda>g. \<not> skipped_group B S g) rows)"
    and sc: "map segmentation ca =
             map (\<lambda>g. [flatten (group_outline B S g)]) (filter (\<lambda>g. \<not> skipped_group B S g) columns)"
    by blast
  have lr: "length ra = length (filter (\<lambda>g. \<not> skipped_group B S g) rows)"
    using arg_cong [OF sr, of length] by simp
  have lc: "length ca = length (filter (\<lambda>g. \<not> skipped_group B S g) columns)"
    using arg_cong [OF sc, of length] by simp
  have "length new + length (filter (skipped_group B S) rows)
                   + length (filter (skipped_group B S) columns)
          = length rows + length columns"
    using sum_length_filter_compl [of "skipped_group B S" rows]
          sum_length_filter_compl [of "skipped_group B S" columns]
    by (simp add: rc lr lc)
  then show ?thesis using g a n by auto
qed


lemma example_region_run:
  "convert_region decimal_builtins disjoint_lib 0 region_abc ([], 0)
     = Inr (example_region_records, 3)"
  by code_simp

lemma example_region_groups:
  "group_cells_by_row_and_column decimal_builtins (find_all ''TableCell'' region_abc)
     = Inr ([(0, [cell_a, cell_b]), (1, [cell_c])], [(0, [cell_a, cell_c]), (1, [cell_b])])"
  by code_simp

theorem region_record_count_witness:
  "convert_region decimal_builtins disjoint_lib 0 region_abc ([], 0)
     = Inr (example_region_records, 3)
   \<and> length (filter (skipped_group decimal_builtins disjoint_lib)
               [(0, [cell_a, cell_b]), (1, [cell_c])])
     + length (filter (skipped_group decimal_builtins disjoint_lib)
               [(0, [cell_a, cell_c]), (1, [cell_b])]) = 1"
proof -
  from region_record_count [OF example_region_run] obtain rows columns new where
    g: "group_cells_by_row_and_column decimal_builtins (find_all ''TableCell'' region_abc)
          = Inr (rows, columns)"
    and new: "example_region_records = [] @ new"
    and len: "length new + length (filter (skipped_group decimal_builtins disjoint_lib) rows)
                + length (filter (skipped_group decimal_builtins disjoint_lib) columns)
              = length rows + length columns"
    by blast
  from g have rows: "rows = [(0, [cell_a, cell_b]), (1, [cell_c])]"
    and columns: "columns = [(0, [cell_a, cell_c]), (1, [cell_b])]"
    by (simp_all add: example_region_groups)
  from new have "new = example_region_records" by simp
  then have "length new = 3" by (simp add: example_region_records_def)
  then show ?thesis using len example_region_run unfolding rows columns by simp
qed

theorem region_record_count_counterexample:
  "\<not> count_as_specified decimal_builtins disjoint_lib 0 region_c"
  by code_simp

lemma renumber_fields:
  "map segmentation (renumber n xs) = map segmentation xs"
  "map bbox (renumber n xs) = map bbox xs"
  "map image_id (renumber n xs) = map image_id xs"
  "map category_id (renumber n xs) = map category_id xs"
  by (induction xs arbitrary: n) auto

lemma calculate_group_boundaries_polygons:
  "calculate_group_boundaries B S d = Inr bs \<Longrightarrow> g \<in> set d \<Longrightarrow>
     group_polygons B S (snd g) =
       map (\<lambda>c. cell_polygon S (cell_coords B c)) (filter (\<lambda>c. 3 \<le> n_points B c) (snd g))"
proof (induction d arbitrary: bs)
  case Nil
  then show ?case by simp
next
  case (Cons h d)
  obtain k cells where h: "h = (k, cells)" by (cases h)
  from Cons.prems(1) obtain ps bs' where
    ps: "cell_polygons B S cells = Inr ps"
    and bs': "calculate_group_boundaries B S d = Inr bs'"
    by (auto simp: h split: sum.splits option.splits)
  show ?case
  proof (cases "g = h")
    case True
    then show ?thesis
      using cell_polygons_Inr [OF ps] group_polygons_eq [OF ps] by (simp add: h)
  next
    case False
    then show ?thesis using Cons.IH [OF bs'] Cons.prems(2) by simp
  qed
qed

text \<open>
  Claim C3, as amended. For a table region converted without an exception, the records
  appended correspond, in order, to the row groups and then the column groups that yield
  one; the segmentation of a group's record is one polygon, the outline of the union of
  the group's polygons: its exterior ring when the union is a \<open>Polygon\<close>, and the exterior
  ring of its first part of largest area when the union is a \<open>MultiPolygon\<close>. The polygons
  of a group are those of its cells with at least three points, repaired by
  \<open>make_valid\<close> when invalid. Each record carries a four-number \<open>bbox\<close> and the index of
  its image. The claim as written (the exterior boundary of the union) fails when the
  union has several parts.
\<close>

theorem region_record_polygons:
  assumes "convert_region B S idx item (annos, n) = Inr (annos', n')"
  shows "\<exists>rows columns new.
           group_cells_by_row_and_column B (find_all ''TableCell'' item) = Inr (rows, columns)
         \<and> annos' = annos @ new
         \<and> map segmentation new =
             map (\<lambda>g. [flatten (group_outline B S g)])
                 (filter (\<lambda>g. \<not> skipped_group B S g) (rows @ columns))
         \<and> (\<forall>g\<in>set (rows @ columns).
              group_outline B S g =
                union_outline S (unary_union S
                  (map (\<lambda>c. cell_polygon S (cell_coords B c))
                       (filter (\<lambda>c. 3 \<le> n_points B c) (snd g)))))
         \<and> (\<forall>a\<in>set new. length (segmentation a) = 1 \<and> length (bbox a) = 4
                \<and> image_id a = idx)"
proof -
  from assms obtain new where new: "region_records B S idx item = Inr new"
    and a: "annos' = annos @ renumber n new"
    by (auto simp: convert_region_eq split: sum.splits)
  from new obtain rows columns rb cb where
    g: "group_cells_by_row_and_column B (find_all ''TableCell'' item) = Inr (rows, columns)"
    and rb: "calculate_group_boundaries B S rows = Inr rb"
    and cb: "calculate_group_boundaries B S columns = Inr cb"
    by (auto simp: region_records_def ebind_def split: sum.splits prod.splits)
  from region_records_Inr [OF new] g obtain ra ca where
    rc: "new = ra @ ca"
    and sr: "map segmentation ra =
             map (\<lambda>g. [flatten (group_outline B S g)]) (filter (\<lambda>g. \<not> skipped_group B S g) rows)"
    and sc: "map segmentation ca =
             map (\<lambda>g. [flatten (group_outline B S g)]) (filter (\<lambda>g. \<not> skipped_group B S g) columns)"
    and f: "\<forall>a\<in>set new. image_id a = idx \<and> length (bbox a) = 4"
    by auto
  have seg: "map segmentation (renumber n new) =
             map (\<lambda>g. [flatten (group_outline B S g)])
                 (filter (\<lambda>g. \<not> skipped_group B S g) (rows @ columns))"
    by (simp add: renumber_fields rc sr sc)
  have out: "group_outline B S h =
                union_outline S (unary_union S
                  (map (\<lambda>c. cell_polygon S (cell_coords B c))
                       (filter (\<lambda>c. 3 \<le> n_points B c) (snd h))))"
    if "h \<in> set (rows @ columns)" for h
    using that calculate_group_boundaries_polygons [OF rb, of h]
          calculate_group_boundaries_polygons [OF cb, of h]
    by (auto simp: group_outline_def)
  have fld: "length (segmentation b) = 1 \<and> length (bbox b) = 4 \<and> image_id b = idx"
    if "b \<in> set (renumber n new)" for b
  proof -
    from in_renumberD [OF that] obtain c k where c: "c \<in> set new" "b = c\<lparr>ann_id := k\<rparr>"
      by blast
    from c(1) have "segmentation c \<in> set (map segmentation new)" by simp
    then have "length (segmentation c) = 1"
      unfolding rc by (auto simp: sr sc)
    then show ?thesis using f c by simp
  qed
  show ?thesis using g a seg out fld by blast
qed

theorem region_record_polygons_witness:
  "map (\<lambda>g. [flatten (group_outline decimal_builtins disjoint_lib g)])
       (filter (\<lambda>g. \<not> skipped_group decimal_builtins disjoint_lib g)
          [(0, [cell_a, cell_b]), (1, [cell_c]), (0, [cell_a, cell_c]), (1, [cell_b])])
     = [[[5, 0, 8, 0, 8, 3, 5, 3, 5, 0]], [[0, 0, 2, 0, 2, 2, 0, 2, 0, 0]],
        [[5, 0, 8, 0, 8, 3, 5, 3, 5, 0]]]"
proof -
  from region_record_polygons [OF example_region_run] obtain rows columns new where
    g: "group_cells_by_row_and_column decimal_builtins (find_all ''TableCell'' region_abc)
          = Inr (rows, columns)"
    and new: "example_region_records = [] @ new"
    and seg: "map segmentation new =
             map (\<lambda>g. [flatten (group_outline decimal_builtins disjoint_lib g)])
                 (filter (\<lambda>g. \<not> skipped_group decimal_builtins disjoint_lib g) (rows @ columns))"
    by blast
  from g have rows: "rows = [(0, [cell_a, cell_b]), (1, [cell_c])]"
    and columns: "columns = [(0, [cell_a, cell_c]), (1, [cell_b])]"
    by (simp_all add: example_region_groups)
  have "map segmentation new =
          [[[5, 0, 8, 0, 8, 3, 5, 3, 5, 0]], [[0, 0, 2, 0, 2, 2, 0, 2, 0, 0]],
           [[5, 0, 8, 0, 8, 3, 5, 3, 5, 0]]]"
    using new [symmetric] by (simp add: example_region_records_def)
  then show ?thesis using seg unfolding rows columns by simp
qed

theorem region_record_polygons_counterexample:
  "\<not> outline_as_specified decimal_builtins disjoint_lib 0 region_abc"
  by code_simp

subsection \<open>The records of one file in the output\<close>

lemma annos_of_append: "annos_of (xs @ ys) = annos_of xs @ annos_of ys"
  by (simp add: annos_of_def)

lemma images_of_append: "images_of (xs @ ys) = images_of xs @ images_of ys"
  by (simp add: images_of_def)

lemma filter_renumber_all:
  "\<forall>a\<in>set xs. image_id a = idx \<Longrightarrow>
     filter (\<lambda>a. image_id a = idx) (renumber n xs) = renumber n xs"
  by (induction xs arbitrary: n) auto

lemma filter_renumber_none:
  "\<forall>a\<in>set xs. image_id a \<noteq> idx \<Longrightarrow> filter (\<lambda>a. image_id a = idx) (renumber n xs) = []"
  by (induction xs arbitrary: n) auto

lemma file_results_nth:
  assumes "sequence_err (map (file_records B S E D) (enumerate 0 xs)) = Inr rs"
  shows "length rs = length xs"
    and "j < length xs \<Longrightarrow> file_records B S E D (j, xs ! j) = Inr (rs ! j)"
proof -
  from assms have l: "list_all2 (\<lambda>f r. file_records B S E D f = Inr r) (enumerate 0 xs) rs"
    by (simp add: sequence_err_map_Inr)
  then show len: "length rs = length xs" by (auto dest: list_all2_lengthD)
  show "file_records B S E D (j, xs ! j) = Inr (rs ! j)" if "j < length xs"
    using l that by (auto simp: list_all2_conv_all_nth nth_enumerate_eq)
qed

lemma file_results_ids:
  assumes "sequence_err (map (file_records B S E D) (enumerate 0 xs)) = Inr rs"
    and "j < length rs"
  shows "\<forall>a\<in>set (annos_of [rs ! j]). image_id a = j"
    and "\<forall>im\<in>set (images_of [rs ! j]). img_id im = j"
proof -
  have j: "j < length xs" using assms(2) file_results_nth(1) [OF assms(1)] by simp
  note fr = file_results_nth(2) [OF assms(1) j]
  show "\<forall>a\<in>set (annos_of [rs ! j]). image_id a = j"
  proof
    fix a assume "a \<in> set (annos_of [rs ! j])"
    then obtain im new where r: "rs ! j = Some (im, new)" and a: "a \<in> set new"
      by (auto simp: annos_of_member dest: sym)
    from file_records_origin [OF fr [unfolded r] a] show "image_id a = j"
      by (simp add: origin_image_id)
  qed
  show "\<forall>im\<in>set (images_of [rs ! j]). img_id im = j"
  proof
    fix im assume "im \<in> set (images_of [rs ! j])"
    then obtain new where r: "rs ! j = Some (im, new)"
      by (auto simp: images_of_member dest: sym)
    from image_template_Inr(1) [OF file_records_Some(1) [OF fr [unfolded r]]]
    show "img_id im = j" by simp
  qed
qed

lemma annos_of_ids_range:
  assumes "sequence_err (map (file_records B S E D) (enumerate 0 xs)) = Inr rs"
    and "a \<in> set (annos_of (take k rs))"
  shows "image_id a < k \<and> image_id a < length rs"
proof -
  from assms(2) obtain r where r: "r \<in> set (take k rs)" and a: "a \<in> set (annos_of [r])"
    by (auto simp: annos_of_def)
  from r obtain j where j: "j < length (take k rs)" "take k rs ! j = r"
    by (auto simp: in_set_conv_nth)
  then have jj: "j < k" "j < length rs" "rs ! j = r" by auto
  from file_results_ids(1) [OF assms(1) jj(2)] a jj show ?thesis by auto
qed

lemma images_of_ids_range:
  assumes "sequence_err (map (file_records B S E D) (enumerate 0 xs)) = Inr rs"
    and "im \<in> set (images_of (take k rs))"
  shows "img_id im < k \<and> img_id im < length rs"
proof -
  from assms(2) obtain r where r: "r \<in> set (take k rs)" and a: "im \<in> set (images_of [r])"
    by (auto simp: images_of_def)
  from r obtain j where j: "j < length (take k rs)" "take k rs ! j = r"
    by (auto simp: in_set_conv_nth)
  then have jj: "j < k" "j < length rs" "rs ! j = r" by auto
  from file_results_ids(2) [OF assms(1) jj(2)] a jj show ?thesis by auto
qed

lemma annos_of_drop_ids:
  assumes "sequence_err (map (file_records B S E D) (enumerate 0 xs)) = Inr rs"
    and "a \<in> set (annos_of (drop k rs))"
  shows "k \<le> image_id a"
proof -
  from assms(2) obtain r where r: "r \<in> set (drop k rs)" and a: "a \<in> set (annos_of [r])"
    by (auto simp: annos_of_def)
  from r obtain j where j: "j < length (drop k rs)" "drop k rs ! j = r"
    by (auto simp: in_set_conv_nth)
  then have jj: "k + j < length rs" "rs ! (k + j) = r" by auto
  from file_results_ids(1) [OF assms(1) jj(1)] a jj show ?thesis by auto
qed

lemma images_of_drop_ids:
  assumes "sequence_err (map (file_records B S E D) (enumerate 0 xs)) = Inr rs"
    and "im \<in> set (images_of (drop k rs))"
  shows "k \<le> img_id im"
proof -
  from assms(2) obtain r where r: "r \<in> set (drop k rs)" and a: "im \<in> set (images_of [r])"
    by (auto simp: images_of_def)
  from r obtain j where j: "j < length (drop k rs)" "drop k rs ! j = r"
    by (auto simp: in_set_conv_nth)
  then have jj: "k + j < length rs" "rs ! (k + j) = r" by auto
  from file_results_ids(2) [OF assms(1) jj(1)] a jj show ?thesis by auto
qed

lemma file_segment:
  assumes rs: "sequence_err (map (file_records B S E D) (enumerate 0 xs)) = Inr rs"
  shows "filter (\<lambda>a. image_id a = idx) (renumber 0 (annos_of rs))
           = renumber (length (annos_of (take idx rs))) (annos_at rs idx)"
proof (cases "idx < length rs")
  case False
  have "\<forall>a\<in>set (annos_of rs). image_id a \<noteq> idx"
    using annos_of_ids_range [OF rs, of _ "length rs"] False by auto
  then show ?thesis using False by (simp add: filter_renumber_none annos_at_def)
next
  case True
  have split: "rs = take idx rs @ [rs ! idx] @ drop (Suc idx) rs"
    using True by (simp add: id_take_nth_drop [symmetric])
  have a1: "\<forall>a\<in>set (annos_of (take idx rs)). image_id a \<noteq> idx"
    using annos_of_ids_range [OF rs, of _ idx] by auto
  have a2: "\<forall>a\<in>set (annos_of [rs ! idx]). image_id a = idx"
    using file_results_ids(1) [OF rs True] .
  have a3: "\<forall>a\<in>set (annos_of (drop (Suc idx) rs)). image_id a \<noteq> idx"
    by (fastforce dest: annos_of_drop_ids [OF rs])
  have "annos_of rs = annos_of (take idx rs) @ annos_of [rs ! idx] @ annos_of (drop (Suc idx) rs)"
    by (subst split) (simp only: annos_of_append)
  then have "filter (\<lambda>a. image_id a = idx) (renumber 0 (annos_of rs))
      = renumber (length (annos_of (take idx rs))) (annos_of [rs ! idx])"
    using a1 a2 a3
    by (simp add: renumber_append filter_renumber_none filter_renumber_all)
  then show ?thesis using True by (simp add: annos_at_def)
qed

lemma filter_all: "\<forall>x\<in>set xs. P x \<Longrightarrow> filter P xs = xs"
  by (induction xs) auto

lemma filter_none: "\<forall>x\<in>set xs. \<not> P x \<Longrightarrow> filter P xs = []"
  by (induction xs) auto

lemma file_image_segment:
  assumes rs: "sequence_err (map (file_records B S E D) (enumerate 0 xs)) = Inr rs"
  shows "filter (\<lambda>im. img_id im = idx) (images_of rs) = images_at rs idx"
proof (cases "idx < length rs")
  case False
  have "\<forall>a\<in>set (images_of rs). img_id a \<noteq> idx"
    using images_of_ids_range [OF rs, of _ "length rs"] False by auto
  then show ?thesis using False by (simp add: filter_none images_at_def)
next
  case True
  have split: "rs = take idx rs @ [rs ! idx] @ drop (Suc idx) rs"
    using True by (simp add: id_take_nth_drop [symmetric])
  have a1: "\<forall>a\<in>set (images_of (take idx rs)). img_id a \<noteq> idx"
    using images_of_ids_range [OF rs, of _ idx] by auto
  have a2: "\<forall>a\<in>set (images_of [rs ! idx]). img_id a = idx"
    using file_results_ids(2) [OF rs True] .
  have a3: "\<forall>a\<in>set (images_of (drop (Suc idx) rs)). img_id a \<noteq> idx"
    by (fastforce dest: images_of_drop_ids [OF rs])
  have "images_of rs = images_of (take idx rs) @ images_of [rs ! idx] @ images_of (drop (Suc idx) rs)"
    by (subst split) (simp only: images_of_append)
  then have "filter (\<lambda>a. img_id a = idx) (images_of rs) = images_of [rs ! idx]"
    using a1 a2 a3 by (simp add: filter_none filter_all)
  then show ?thesis using True by (simp add: images_at_def)
qed

subsection \<open>Two runs that differ in one annotation file\<close>

lemma load_annotation_same:
  assumes "path_exists E1 = path_exists E2"
    and "\<forall>q. q \<noteq> p \<longrightarrow> load_soup E1 q = load_soup E2 q"
    and "anno_file E1 D idx \<noteq> p"
  shows "load_annotation E1 D idx = load_annotation E2 D idx"
  using assms by (auto simp: load_annotation_def anno_file_def Let_def)

lemma file_records_same:
  assumes "path_exists E1 = path_exists E2" "imagesize_get E1 = imagesize_get E2"
    and "\<forall>q. q \<noteq> p \<longrightarrow> load_soup E1 q = load_soup E2 q"
    and "anno_file E1 D (fst f) \<noteq> p"
  shows "file_records B S E1 D f = file_records B S E2 D f"
proof -
  have "image_template E1 = image_template E2"
    by (simp add: fun_eq_iff image_template_def assms(2))
  then show ?thesis
    unfolding file_records_def
    by (simp only: load_annotation_same [OF assms(1,3,4)] assms(1))
qed

lemma strip_renumber: "map (\<lambda>a. a\<lparr>ann_id := 0\<rparr>) (renumber n xs) = map (\<lambda>a. a\<lparr>ann_id := 0\<rparr>) xs"
  by (induction xs arbitrary: n) auto

text \<open>
  Claim C4, as amended. Take two runs of \<open>convert_to_COCO\<close> on the same dataset that
  both return and whose files differ only in the contents of the annotation file \<open>p\<close>
  (the same paths exist, the images have the same sizes, every other annotation file
  parses to the same document). For every file of the dataset that does not read \<open>p\<close>,
  the image record is the same in both outputs, and the annotation records are the same,
  in the same order, up to the value of \<open>id\<close>; they are the same including \<open>id\<close> when
  no earlier file of the id list reads \<open>p\<close>. The claim as written (identical records)
  fails, because \<open>anno_id\<close> runs across files: emptying the first page's annotation file
  shifts the ids of the second page's records from 3, 4 to 0, 1.
\<close>

theorem other_files_unchanged:
  assumes ex: "path_exists E1 = path_exists E2"
    and sz: "imagesize_get E1 = imagesize_get E2"
    and ls: "\<forall>q. q \<noteq> p \<longrightarrow> load_soup E1 q = load_soup E2 q"
    and r1: "convert_to_COCO B S E1 D save_path = Inr (out1, w1)"
    and r2: "convert_to_COCO B S E2 D save_path = Inr (out2, w2)"
    and other: "anno_file E1 D idx \<noteq> p"
  shows "file_images out1 idx = file_images out2 idx
       \<and> map (\<lambda>a. a\<lparr>ann_id := 0\<rparr>) (file_annos out1 idx)
           = map (\<lambda>a. a\<lparr>ann_id := 0\<rparr>) (file_annos out2 idx)
       \<and> ((\<forall>j<idx. anno_file E1 D j \<noteq> p) \<longrightarrow> file_annos out1 idx = file_annos out2 idx)"
proof -
  from convert_to_COCO_Inr [OF r1] obtain rs1 where
    rs1: "sequence_err (map (file_records B S E1 D) (enumerate 0 (ids D))) = Inr rs1"
    and im1: "images out1 = images_of rs1"
    and an1: "annotations out1 = renumber 0 (annos_of rs1)" by blast
  from convert_to_COCO_Inr [OF r2] obtain rs2 where
    rs2: "sequence_err (map (file_records B S E2 D) (enumerate 0 (ids D))) = Inr rs2"
    and im2: "images out2 = images_of rs2"
    and an2: "annotations out2 = renumber 0 (annos_of rs2)" by blast
  have len: "length rs1 = length (ids D)" "length rs2 = length (ids D)"
    using file_results_nth(1) [OF rs1] file_results_nth(1) [OF rs2] by simp_all
  have same: "rs1 ! j = rs2 ! j" if "j < length (ids D)" "anno_file E1 D j \<noteq> p" for j
  proof -
    have "file_records B S E1 D (j, ids D ! j) = file_records B S E2 D (j, ids D ! j)"
      using file_records_same [OF ex sz ls, of D "(j, ids D ! j)"] that(2) by simp
    then show ?thesis
      using file_results_nth(2) [OF rs1 that(1)] file_results_nth(2) [OF rs2 that(1)] by simp
  qed
  have at: "annos_at rs1 idx = annos_at rs2 idx" "images_at rs1 idx = images_at rs2 idx"
    using same [of idx] other len by (auto simp: annos_at_def images_at_def)
  have fa1: "file_annos out1 idx = renumber (length (annos_of (take idx rs1))) (annos_at rs1 idx)"
    unfolding file_annos_def an1 by (rule file_segment [OF rs1])
  have fa2: "file_annos out2 idx = renumber (length (annos_of (take idx rs2))) (annos_at rs2 idx)"
    unfolding file_annos_def an2 by (rule file_segment [OF rs2])
  have 1: "file_images out1 idx = file_images out2 idx"
    unfolding file_images_def im1 im2
    by (simp add: file_image_segment [OF rs1] file_image_segment [OF rs2] at)
  have 2: "map (\<lambda>a. a\<lparr>ann_id := 0\<rparr>) (file_annos out1 idx)
           = map (\<lambda>a. a\<lparr>ann_id := 0\<rparr>) (file_annos out2 idx)"
    by (simp add: fa1 fa2 strip_renumber at)
  have 3: "file_annos out1 idx = file_annos out2 idx" if "\<forall>j<idx. anno_file E1 D j \<noteq> p"
  proof -
    have "take idx rs1 = take idx rs2"
    proof (rule nth_equalityI)
      show "length (take idx rs1) = length (take idx rs2)" using len by simp
    next
      fix j assume "j < length (take idx rs1)"
      then have "j < idx" "j < length (ids D)" using len by simp_all
      then show "take idx rs1 ! j = take idx rs2 ! j" using same [of j] that by simp
    qed
    then show ?thesis by (simp add: fa1 fa2 at)
  qed
  show ?thesis using 1 2 3 by blast
qed


lemma example_run_empty1:
  "convert_to_COCO decimal_builtins disjoint_lib (example_env (page_of []) (page_of [region_a]))
     example_dataset ''out.json'' = Inr (example_out_empty1, (''out.json'', example_out_empty1))"
  by code_simp

lemma example_run_empty2:
  "convert_to_COCO decimal_builtins disjoint_lib (example_env (page_of [region_abc]) (page_of []))
     example_dataset ''out.json'' = Inr (example_out_empty2, (''out.json'', example_out_empty2))"
  by code_simp

lemma example_anno_files:
  "anno_file (example_env d1 d2) example_dataset 0 = ''data/XML/p1.xml''"
  "anno_file (example_env d1 d2) example_dataset 1 = ''data/XML/pc-p2.xml''"
  by (simp_all add: anno_file_def example_env_def example_dataset_def path_join_def)

theorem other_files_unchanged_witness:
  "file_images example_out 1 = file_images example_out_empty1 1
   \<and> map (\<lambda>a. a\<lparr>ann_id := 0\<rparr>) (file_annos example_out 1)
       = map (\<lambda>a. a\<lparr>ann_id := 0\<rparr>) (file_annos example_out_empty1 1)
   \<and> file_images example_out 0 = file_images example_out_empty2 0
   \<and> file_annos example_out 0 = file_annos example_out_empty2 0"
proof -
  let ?E = "example_env (page_of [region_abc]) (page_of [region_a])"
  let ?E1 = "example_env (page_of []) (page_of [region_a])"
  let ?E2 = "example_env (page_of [region_abc]) (page_of [])"
  have a: "path_exists ?E = path_exists ?E1" "imagesize_get ?E = imagesize_get ?E1"
    "\<forall>q. q \<noteq> ''data/XML/p1.xml'' \<longrightarrow> load_soup ?E q = load_soup ?E1 q"
    by (simp_all add: example_env_def)
  have a4: "anno_file ?E example_dataset 1 \<noteq> ''data/XML/p1.xml''"
    by (simp only: example_anno_files) simp
  have b: "path_exists ?E = path_exists ?E2" "imagesize_get ?E = imagesize_get ?E2"
    "\<forall>q. q \<noteq> ''data/XML/pc-p2.xml'' \<longrightarrow> load_soup ?E q = load_soup ?E2 q"
    by (simp_all add: example_env_def)
  have b4: "anno_file ?E example_dataset 0 \<noteq> ''data/XML/pc-p2.xml''"
    by (simp only: example_anno_files) simp
  from other_files_unchanged [OF a(1,2,3) example_run example_run_empty1 a4]
       other_files_unchanged [OF b(1,2,3) example_run example_run_empty2 b4]
  show ?thesis by simp
qed

theorem other_files_unchanged_counterexample:
  "convert_to_COCO decimal_builtins disjoint_lib
      (example_env (page_of [region_abc]) (page_of [region_a])) example_dataset ''out.json''
     = Inr (example_out, (''out.json'', example_out))
   \<and> convert_to_COCO decimal_builtins disjoint_lib
      (example_env (page_of []) (page_of [region_a])) example_dataset ''out.json''
     = Inr (example_out_empty1, (''out.json'', example_out_empty1))
   \<and> anno_file (example_env (page_of [region_abc]) (page_of [region_a])) example_dataset 1
     = ''data/XML/pc-p2.xml''
   \<and> file_annos example_out 1 \<noteq> file_annos example_out_empty1 1"
proof -
  have "file_annos example_out 1 \<noteq> file_annos example_out_empty1 1"
    by (simp add: file_annos_def example_out_def example_out_empty1_def)
  then show ?thesis
    using example_run example_run_empty1 example_anno_files(2) by simp
qed


section \<open>Properties of the downloader\<close>

subsection \<open>The finding-aid table\<close>

lemma unitid_loop_lookup:
  "unitid_loop dids out k =
     (case filter (\<lambda>p. fst p = k)
             (concat (map (\<lambda>did. case did_entry did of None \<Rightarrow> [] | Some p \<Rightarrow> [p]) dids)) of
        [] \<Rightarrow> out k
      | p # ps \<Rightarrow> Some (snd (last (p # ps))))"
proof (induction dids arbitrary: out)
  case Nil
  show ?case by simp
next
  case (Cons did dids)
  show ?case
  proof (cases "did_entry did")
    case None
    then show ?thesis using Cons.IH [of out] by simp
  next
    case (Some p)
    obtain k' v where p: "p = (k', v)" by (cases p)
    have step: "unitid_loop (did # dids) out k = unitid_loop dids (out(k' \<mapsto> v)) k"
      using Some by (simp add: p)
    show ?thesis
      unfolding step Cons.IH [of "out(k' \<mapsto> v)"]
      using Some by (cases "k' = k") (auto simp: p split: list.splits)
  qed
qed

text \<open>
  Claim C6, as amended. When \<open>parse_unitid_mets\<close> returns, the file parsed to a tree, and
  the table maps a key \<open>k\<close> exactly when some \<open>did\<close> element below the root has both a
  \<open>unitid\<close> child and a \<open>dao\<close> child and its \<open>unitid\<close> text is \<open>k\<close>; the value is then the
  \<open>href\<close> of the \<open>dao\<close> of the last such element in document order. The table has no
  other entries. The claim as written (every such \<open>did\<close> is mapped to its own \<open>href\<close>)
  fails when two \<open>did\<close> elements share a \<open>unitid\<close> text and differ in \<open>href\<close>.
\<close>

theorem parse_unitid_mets_table:
  assumes "parse_unitid_mets N s file_path = Inr out"
  shows "\<exists>r. parse_file N s file_path = Inr r
           \<and> (\<forall>k. out k = (case filter (\<lambda>p. fst p = k) (did_pairs r) of
                              [] \<Rightarrow> None
                            | p # ps \<Rightarrow> Some (snd (last (p # ps)))))"
proof -
  from assms obtain r where r: "parse_file N s file_path = Inr r"
    and out: "out = unitid_loop (find_all ''did'' r) Map.empty"
    by (auto simp: parse_unitid_mets_def ebind_def split: sum.splits)
  show ?thesis
    using r unfolding out did_pairs_def by (simp add: unitid_loop_lookup)
qed

lemma example_did_pairs:
  "did_pairs example_ead =
     [(Some ''1234'', Some ''https://example.org/mets/1234''),
      (Some ''5678'', Some ''https://example.org/mets/5678'')]"
  by code_simp

lemma example_parse_file:
  "parse_file example_net (ead_world ''EAD'') XML_FILENAME = Inr example_ead"
  by (simp add: parse_file_def ead_world_def lookup_def example_net_def)

theorem parse_unitid_mets_table_witness:
  "(case parse_unitid_mets example_net (ead_world ''EAD'') XML_FILENAME of
      Inl e \<Rightarrow> []
    | Inr out \<Rightarrow> map out [Some ''1234'', Some ''5678'', Some ''9999'', None])
   = [Some (Some ''https://example.org/mets/1234''),
      Some (Some ''https://example.org/mets/5678''), None, None]"
proof (cases "parse_unitid_mets example_net (ead_world ''EAD'') XML_FILENAME")
  case (Inl e)
  then show ?thesis by (simp add: parse_unitid_mets_def ebind_def example_parse_file)
next
  case (Inr out)
  from parse_unitid_mets_table [OF Inr] show ?thesis
    by (simp add: Inr example_parse_file example_did_pairs)
qed

theorem parse_unitid_mets_table_counterexample:
  "did_pairs example_ead_dup =
     [(Some ''1234'', Some ''https://example.org/mets/A''),
      (Some ''1234'', Some ''https://example.org/mets/B'')]
   \<and> (case parse_unitid_mets dup_net (ead_world ''EAD'') XML_FILENAME of
         Inl e \<Rightarrow> None
       | Inr out \<Rightarrow> out (Some ''1234''))
      = Some (Some ''https://example.org/mets/B'')"
  by code_simp

subsection \<open>File operations\<close>

lemma print_simps [simp]:
  "stdout (print m s) = stdout s @ [m]" "entries (print m s) = entries s"
  "dirs (print m s) = dirs s" "requests (print m s) = requests s"
  by (simp_all add: print_def)

lemma lookup_print [simp]: "lookup (print m s) p = lookup s p"
  by (simp add: lookup_def)

lemma path_present_print [simp]: "path_present (print m s) p = path_present s p"
  by (simp add: path_present_def)




lemma unlink_Inr:
  assumes "unlink p s = Inr s1"
  shows "entries s1 = filter (\<lambda>e. fst e \<noteq> p) (entries s)"
  using assms by (auto simp: unlink_def split: option.splits entry.splits)

subsection \<open>The last loop of main\<close>

lemma delete_loop_Inr:
  "delete_loop t names s = Inr s' \<Longrightarrow>
     entries s' = filter (\<lambda>e. fst e \<notin> Pair t ` set names) (entries s)"
proof (induction names arbitrary: s)
  case Nil
  then show ?case by simp
next
  case (Cons nm names)
  from Cons.prems obtain s1 where u: "unlink (t, nm) s = Inr s1"
    and r: "delete_loop t names (print (Deleted_METS (t, nm)) s1) = Inr s'"
    by (auto split: sum.splits)
  have "entries s' = filter (\<lambda>e. fst e \<notin> Pair t ` set names) (filter (\<lambda>e. fst e \<noteq> (t, nm)) (entries s))"
    using Cons.IH [OF r] unlink_Inr [OF u] by simp
  also have "\<dots> = filter (\<lambda>e. fst e \<notin> Pair t ` set (nm # names)) (entries s)"
    by (auto intro: filter_cong)
  finally show ?case .
qed

lemma glob_xml_member:
  "nm \<in> set (glob_xml s t) \<longleftrightarrow> ends_with ''.xml'' nm \<and> (t, nm) \<in> fst ` set (entries s)"
  by (force simp: glob_xml_def)

lemma delete_loop_glob:
  assumes "delete_loop t (glob_xml s t) s = Inr s'"
  shows "glob_xml s' t = []"
    and "ends_with ''.xml'' nm \<Longrightarrow> lookup s' (t, nm) = None"
proof -
  note e = delete_loop_Inr [OF assms]
  have none: "(t, nm) \<notin> fst ` set (entries s')" if "ends_with ''.xml'' nm" for nm
  proof
    assume "(t, nm) \<in> fst ` set (entries s')"
    then have "(t, nm) \<in> fst ` set (entries s)" "(t, nm) \<notin> Pair t ` set (glob_xml s t)"
      unfolding e by auto
    then show False using that by (auto simp: glob_xml_member)
  qed
  show "glob_xml s' t = []"
  proof (rule ccontr)
    assume "glob_xml s' t \<noteq> []"
    then obtain x where "x \<in> set (glob_xml s' t)" by (cases "glob_xml s' t") auto
    then show False using none [of x] by (simp add: glob_xml_member)
  qed
  show "lookup s' (t, nm) = None" if "ends_with ''.xml'' nm"
    using none [OF that] by (simp add: lookup_def map_of_eq_None_iff)
qed

text \<open>
  Claim C10. When \<open>main\<close> returns normally (three arguments, no exception), the target
  directory \<open>argv[2]\<close> has no entry whose name ends in \<open>.xml\<close>: \<open>glob("*.xml")\<close> on it is
  empty and no such path exists. Whatever matched at the start of the last loop,
  downloaded manifest or not, was unlinked.
\<close>

theorem main_deletes_xml:
  assumes "main N argv s = Inr s'"
  shows "length argv = 3 \<and> glob_xml s' (argv ! 2) = []
       \<and> (\<forall>nm. ends_with ''.xml'' nm \<longrightarrow> lookup s' (argv ! 2, nm) = None)"
proof -
  from assms have len: "length argv = 3"
    by (auto simp: main_def split: if_splits)
  from assms obtain s3 where "delete_loop (argv ! 2) (glob_xml s3 (argv ! 2)) s3 = Inr s'"
    by (auto simp: main_def Let_def ebind_def split: if_splits sum.splits prod.splits)
  from delete_loop_glob [OF this] len show ?thesis by blast
qed

lemma example_main:
  "main example_net [''download-voc.py'', ''src'', ''out''] example_world = Inr example_final"
  by code_simp

theorem main_deletes_xml_witness:
  "glob_xml example_final ''out'' = []
   \<and> lookup example_final (''out'', ''old.xml'') = None
   \<and> lookup example_final (''out'', ''1234.xml'') = None
   \<and> lookup example_world (''out'', ''old.xml'') = Some (File ''old'')"
  using main_deletes_xml [OF example_main]
  by (simp add: ends_with_def lookup_def example_world_def)

subsection \<open>What process\_file prints\<close>

lemma printed_append: "stdout s' = stdout s @ ms \<Longrightarrow> printed s s' = ms"
  by (simp add: printed_def)










end
